theory Spec2Isabelle
  imports Complex_Main
begin

section \<open>Numbers of the source language\<close>

text \<open>
  Every \<^verbatim>\<open>number\<close> of \<^verbatim>\<open>services/physics.ts\<close> is a double. The model keeps the
  special values the pipeline can produce and propagate (both infinities and NaN) and
  computes on finite values with exact real arithmetic: rounding and overflow of finite
  results are not modelled, and zero carries no sign (it behaves as \<^verbatim>\<open>+0\<close>, so
  \<^verbatim>\<open>1 / 0\<close> is \<^verbatim>\<open>Infinity\<close>). Comparisons with NaN are false, as in the source
  language.
\<close>

datatype jsnum = Fin real | PInf | NInf | NaN

instantiation jsnum :: "{plus, minus, uminus, times, inverse, ord}"
begin

fun uminus_jsnum :: "jsnum \<Rightarrow> jsnum" where
  "uminus_jsnum (Fin a) = Fin (- a)"
| "uminus_jsnum PInf = NInf"
| "uminus_jsnum NInf = PInf"
| "uminus_jsnum NaN = NaN"

fun plus_jsnum :: "jsnum \<Rightarrow> jsnum \<Rightarrow> jsnum" where
  "plus_jsnum (Fin a) (Fin b) = Fin (a + b)"
| "plus_jsnum NaN _ = NaN"
| "plus_jsnum _ NaN = NaN"
| "plus_jsnum PInf NInf = NaN"
| "plus_jsnum NInf PInf = NaN"
| "plus_jsnum PInf _ = PInf"
| "plus_jsnum _ PInf = PInf"
| "plus_jsnum NInf _ = NInf"
| "plus_jsnum _ NInf = NInf"

definition minus_jsnum :: "jsnum \<Rightarrow> jsnum \<Rightarrow> jsnum" where
  "minus_jsnum a b = a + (- b)"

fun times_jsnum :: "jsnum \<Rightarrow> jsnum \<Rightarrow> jsnum" where
  "times_jsnum (Fin a) (Fin b) = Fin (a * b)"
| "times_jsnum NaN _ = NaN"
| "times_jsnum _ NaN = NaN"
| "times_jsnum PInf (Fin b) = (if b = 0 then NaN else if 0 < b then PInf else NInf)"
| "times_jsnum NInf (Fin b) = (if b = 0 then NaN else if 0 < b then NInf else PInf)"
| "times_jsnum (Fin a) PInf = (if a = 0 then NaN else if 0 < a then PInf else NInf)"
| "times_jsnum (Fin a) NInf = (if a = 0 then NaN else if 0 < a then NInf else PInf)"
| "times_jsnum PInf PInf = PInf"
| "times_jsnum NInf NInf = PInf"
| "times_jsnum PInf NInf = NInf"
| "times_jsnum NInf PInf = NInf"

fun divide_jsnum :: "jsnum \<Rightarrow> jsnum \<Rightarrow> jsnum" where
  "divide_jsnum (Fin a) (Fin b) =
     (if b = 0 then (if a = 0 then NaN else if 0 < a then PInf else NInf)
      else Fin (a / b))"
| "divide_jsnum NaN _ = NaN"
| "divide_jsnum _ NaN = NaN"
| "divide_jsnum (Fin a) _ = Fin 0"
| "divide_jsnum PInf (Fin b) = (if 0 \<le> b then PInf else NInf)"
| "divide_jsnum NInf (Fin b) = (if 0 \<le> b then NInf else PInf)"
| "divide_jsnum PInf PInf = NaN"
| "divide_jsnum PInf NInf = NaN"
| "divide_jsnum NInf PInf = NaN"
| "divide_jsnum NInf NInf = NaN"

fun inverse_jsnum :: "jsnum \<Rightarrow> jsnum" where
  "inverse_jsnum (Fin a) = (if a = 0 then PInf else Fin (1 / a))"
| "inverse_jsnum PInf = Fin 0"
| "inverse_jsnum NInf = Fin 0"
| "inverse_jsnum NaN = NaN"

fun less_jsnum :: "jsnum \<Rightarrow> jsnum \<Rightarrow> bool" where
  "less_jsnum (Fin a) (Fin b) = (a < b)"
| "less_jsnum (Fin a) PInf = True"
| "less_jsnum (Fin a) NInf = False"
| "less_jsnum (Fin a) NaN = False"
| "less_jsnum PInf _ = False"
| "less_jsnum NInf (Fin b) = True"
| "less_jsnum NInf PInf = True"
| "less_jsnum NInf NInf = False"
| "less_jsnum NInf NaN = False"
| "less_jsnum NaN _ = False"

fun less_eq_jsnum :: "jsnum \<Rightarrow> jsnum \<Rightarrow> bool" where
  "less_eq_jsnum (Fin a) (Fin b) = (a \<le> b)"
| "less_eq_jsnum (Fin a) PInf = True"
| "less_eq_jsnum (Fin a) NInf = False"
| "less_eq_jsnum (Fin a) NaN = False"
| "less_eq_jsnum PInf (Fin b) = False"
| "less_eq_jsnum PInf PInf = True"
| "less_eq_jsnum PInf NInf = False"
| "less_eq_jsnum PInf NaN = False"
| "less_eq_jsnum NInf (Fin b) = True"
| "less_eq_jsnum NInf PInf = True"
| "less_eq_jsnum NInf NInf = True"
| "less_eq_jsnum NInf NaN = False"
| "less_eq_jsnum NaN _ = False"

instance ..

end

text \<open>\<^verbatim>\<open>a === b\<close> on numbers: NaN equals nothing, itself included.\<close>

definition strictEq :: "jsnum \<Rightarrow> jsnum \<Rightarrow> bool" where
  "strictEq a b = (a \<noteq> NaN \<and> b \<noteq> NaN \<and> a = b)"

text \<open>\<^verbatim>\<open>Math.max\<close>, \<^verbatim>\<open>Math.min\<close>, \<^verbatim>\<open>Math.abs\<close>, \<^verbatim>\<open>Math.sqrt\<close>: a NaN
  argument gives NaN.\<close>

definition Math_max :: "jsnum \<Rightarrow> jsnum \<Rightarrow> jsnum" where
  "Math_max a b = (if a = NaN \<or> b = NaN then NaN else if a < b then b else a)"

definition Math_min :: "jsnum \<Rightarrow> jsnum \<Rightarrow> jsnum" where
  "Math_min a b = (if a = NaN \<or> b = NaN then NaN else if b < a then b else a)"

fun Math_abs :: "jsnum \<Rightarrow> jsnum" where
  "Math_abs (Fin a) = Fin \<bar>a\<bar>"
| "Math_abs PInf = PInf"
| "Math_abs NInf = PInf"
| "Math_abs NaN = NaN"

fun Math_sqrt :: "jsnum \<Rightarrow> jsnum" where
  "Math_sqrt (Fin a) = (if a < 0 then NaN else Fin (sqrt a))"
| "Math_sqrt PInf = PInf"
| "Math_sqrt NInf = NaN"
| "Math_sqrt NaN = NaN"

section \<open>Data model (\<^verbatim>\<open>types.ts\<close>)\<close>

record Vec2 =
  x :: jsnum
  y :: jsnum

text \<open>
  Body identifiers and the iteration count are integral in every caller (array indices,
  \<^verbatim>\<open>max + 1\<close>, \<^verbatim>\<open>parseInt\<close> of a slider), so they are modelled as \<open>int\<close>.
  The field \<^verbatim>\<open>id\<close> is named \<open>body_id\<close> (\<open>contact_id\<close> in a contact), and the
  body's own \<^verbatim>\<open>restitution\<close> is named \<open>body_restitution\<close>, to keep it apart from the
  solver parameter.
\<close>

record Body =
  body_id :: int
  pos :: Vec2
  vel :: Vec2
  radius :: jsnum
  mass :: jsnum
  invMass :: jsnum
  color :: string
  body_restitution :: jsnum
  trail :: "Vec2 list"
  isStatic :: bool

text \<open>
  Bodies are objects that the pipeline mutates in place while contacts hold references
  to them, so a body lives in a store and is named by its address; an array may list the
  same body twice. The array of bodies is an object as well; the pipeline only reads it.
  Vectors and trails are values of their body: \<^verbatim>\<open>createBody\<close> gives every body its own, and
  the pipeline either replaces \<^verbatim>\<open>pos\<close> and \<^verbatim>\<open>vel\<close> by the fresh result of a vector helper
  or writes one component of the body's own vector, and it copies a position before it
  stores it in a trail; so no two bodies share one. The contacts of a tick are fresh
  objects in a fresh array, so they are values.
\<close>

type_synonym bref = nat
type_synonym aref = nat

record Contact =
  contact_id :: string
  bodyA :: bref
  bodyB :: "bref option"
  normal :: Vec2
  penetration :: jsnum
  impulseAcc :: jsnum
  effectiveMass :: jsnum
  bias :: jsnum

record SimState =
  bodies :: aref
  contacts :: "Contact list"
  totalEnergy :: jsnum
  solverErrors :: "jsnum list"

record heap =
  arrays :: "aref \<Rightarrow> bref list"
  objs :: "bref \<Rightarrow> Body"

record params =
  gravity :: jsnum
  iterations :: int
  restitution :: jsnum
  warmStarting :: bool

section \<open>Constants (\<^verbatim>\<open>constants.ts\<close>)\<close>

definition CANVAS_WIDTH :: jsnum where "CANVAS_WIDTH = Fin 800"
definition CANVAS_HEIGHT :: jsnum where "CANVAS_HEIGHT = Fin 600"
definition TIMESTEP :: jsnum where "TIMESTEP = Fin 1 / Fin 60"
definition PIXELS_PER_METER :: jsnum where "PIXELS_PER_METER = Fin 50"
definition BAUMGARTE :: jsnum where "BAUMGARTE = Fin (2 / 10)"
definition SLOP :: jsnum where "SLOP = Fin (5 / 100)"
definition TRAIL_LENGTH :: nat where "TRAIL_LENGTH = 20"

definition widthM :: jsnum where "widthM = CANVAS_WIDTH / PIXELS_PER_METER"
definition heightM :: jsnum where "heightM = CANVAS_HEIGHT / PIXELS_PER_METER"

section \<open>Vector helpers\<close>

definition vAdd :: "Vec2 \<Rightarrow> Vec2 \<Rightarrow> Vec2" where
  "vAdd a b = \<lparr>x = x a + x b, y = y a + y b\<rparr>"

definition vSub :: "Vec2 \<Rightarrow> Vec2 \<Rightarrow> Vec2" where
  "vSub a b = \<lparr>x = x a - x b, y = y a - y b\<rparr>"

definition vScale :: "Vec2 \<Rightarrow> jsnum \<Rightarrow> Vec2" where
  "vScale v s = \<lparr>x = x v * s, y = y v * s\<rparr>"

definition vDot :: "Vec2 \<Rightarrow> Vec2 \<Rightarrow> jsnum" where
  "vDot a b = x a * x b + y a * y b"

definition vLen :: "Vec2 \<Rightarrow> jsnum" where
  "vLen v = Math_sqrt (x v * x v + y v * y v)"

definition vNorm :: "Vec2 \<Rightarrow> Vec2" where
  "vNorm v = (let len = vLen v in
     if Fin 0 < len then vScale v (Fin 1 / len) else \<lparr>x = Fin 0, y = Fin 0\<rparr>)"

definition vDist :: "Vec2 \<Rightarrow> Vec2 \<Rightarrow> jsnum" where
  "vDist a b = vLen (vSub a b)"

section \<open>Template strings\<close>

text \<open>The decimal text of an integer, as a template literal prints an integral number.\<close>

fun digits :: "nat \<Rightarrow> string" where
  "digits n =
     (if n < 10 then [''0123456789'' ! n]
      else digits (n div 10) @ [''0123456789'' ! (n mod 10)])"

definition numberToString :: "int \<Rightarrow> string" where
  "numberToString i = (if i < 0 then ''-'' @ digits (nat (- i)) else digits (nat i))"

section \<open>Contact construction\<close>

text \<open>The Baumgarte term, written at both construction sites as
  \<^verbatim>\<open>-BAUMGARTE * (Math.min(0, penetration + SLOP) / TIMESTEP)\<close>.\<close>

definition createWallContact :: "(bref \<Rightarrow> Body) \<Rightarrow> bref \<Rightarrow> Vec2 \<Rightarrow> jsnum \<Rightarrow> jsnum \<Rightarrow> Contact" where
  "createWallContact h body nrm pen rest =
     (let effMass = Fin 1 / invMass (h body);
          bi = (- BAUMGARTE) * (Math_min (Fin 0) (pen + SLOP) / TIMESTEP)
      in \<lparr>contact_id = ''wall-'' @ numberToString (body_id (h body)),
          bodyA = body,
          bodyB = None,
          normal = nrm,
          penetration = pen,
          impulseAcc = Fin 0,
          effectiveMass = effMass,
          bias = bi\<rparr>)"

text \<open>The four boundary tests of one body, in the order floor, ceiling, left, right;
  each pushes at most one contact.\<close>

definition wallContacts :: "(bref \<Rightarrow> Body) \<Rightarrow> jsnum \<Rightarrow> bref \<Rightarrow> Contact list" where
  "wallContacts h rest b =
     (if heightM < y (pos (h b)) + radius (h b)
      then [createWallContact h b \<lparr>x = Fin 0, y = Fin (- 1)\<rparr>
              (heightM - (y (pos (h b)) + radius (h b))) rest]
      else []) @
     (if y (pos (h b)) - radius (h b) < Fin 0
      then [createWallContact h b \<lparr>x = Fin 0, y = Fin 1\<rparr>
              ((y (pos (h b)) - radius (h b)) - Fin 0) rest]
      else []) @
     (if x (pos (h b)) - radius (h b) < Fin 0
      then [createWallContact h b \<lparr>x = Fin 1, y = Fin 0\<rparr>
              ((x (pos (h b)) - radius (h b)) - Fin 0) rest]
      else []) @
     (if widthM < x (pos (h b)) + radius (h b)
      then [createWallContact h b \<lparr>x = Fin (- 1), y = Fin 0\<rparr>
              (widthM - (x (pos (h b)) + radius (h b))) rest]
      else [])"

text \<open>The warm-start lookup \<^verbatim>\<open>state.contacts.find(...)\<close>: the first contact of the
  previous tick whose two bodies carry the ids of \<open>A\<close> and \<open>B\<close>, in either order. A wall
  contact has no \<^verbatim>\<open>bodyB\<close> and never matches.\<close>

definition matchesPair :: "(bref \<Rightarrow> Body) \<Rightarrow> int \<Rightarrow> int \<Rightarrow> Contact \<Rightarrow> bool" where
  "matchesPair h ida idb c =
     (case bodyB c of
        None \<Rightarrow> False
      | Some cb \<Rightarrow>
          (body_id (h (bodyA c)) = ida \<and> body_id (h cb) = idb) \<or>
          (body_id (h (bodyA c)) = idb \<and> body_id (h cb) = ida))"

definition pairContact :: "(bref \<Rightarrow> Body) \<Rightarrow> Contact list \<Rightarrow> bool \<Rightarrow> bref \<Rightarrow> bref \<Rightarrow> Contact list" where
  "pairContact h prev warm a b =
     (if isStatic (h a) \<and> isStatic (h b) then []
      else
        let dist = vDist (pos (h a)) (pos (h b));
            totalRad = radius (h a) + radius (h b)
        in if dist < totalRad then
             let nrm = vNorm (vSub (pos (h b)) (pos (h a)));
                 pen = dist - totalRad;
                 k = invMass (h a) + invMass (h b);
                 effMass = (if Fin 0 < k then Fin 1 / k else Fin 0);
                 bi = (- BAUMGARTE) * (Math_min (Fin 0) (pen + SLOP) / TIMESTEP);
                 initialImpulse =
                   (if warm then
                      (case find (matchesPair h (body_id (h a)) (body_id (h b))) prev of
                         Some existing \<Rightarrow> impulseAcc existing
                       | None \<Rightarrow> Fin 0)
                    else Fin 0)
             in [\<lparr>contact_id = numberToString (body_id (h a)) @ ''-'' @ numberToString (body_id (h b)),
                  bodyA = a,
                  bodyB = Some b,
                  normal = nrm,
                  penetration = pen,
                  impulseAcc = initialImpulse,
                  effectiveMass = effMass,
                  bias = bi\<rparr>]
           else [])"

text \<open>The nested loop \<^verbatim>\<open>for i ... for j = i + 1 ...\<close> over the array of bodies.\<close>

fun pairLoop :: "(bref \<Rightarrow> Body) \<Rightarrow> Contact list \<Rightarrow> bool \<Rightarrow> bref list \<Rightarrow> Contact list" where
  "pairLoop h prev warm [] = []"
| "pairLoop h prev warm (a # bs) =
     concat (map (pairContact h prev warm a) bs) @ pairLoop h prev warm bs"

definition detect :: "(bref \<Rightarrow> Body) \<Rightarrow> Contact list \<Rightarrow> params \<Rightarrow> bref list \<Rightarrow> Contact list" where
  "detect h prev p bs =
     concat (map (wallContacts h (restitution p)) bs) @ pairLoop h prev (warmStarting p) bs"

section \<open>The phases of a tick\<close>

text \<open>Phase 1, \<^verbatim>\<open>b.vel.y += params.gravity * TIMESTEP\<close> for every body that is neither
  static nor of zero inverse mass.\<close>

definition applyGravity :: "jsnum \<Rightarrow> bref \<Rightarrow> (bref \<Rightarrow> Body) \<Rightarrow> (bref \<Rightarrow> Body)" where
  "applyGravity g b h =
     (if strictEq (invMass (h b)) (Fin 0) \<or> isStatic (h b) then h
      else h(b := (h b)\<lparr>vel := (vel (h b))\<lparr>y := y (vel (h b)) + g * TIMESTEP\<rparr>\<rparr>))"

text \<open>The two statements that both the warm start and the solver use to apply an impulse
  vector: \<^verbatim>\<open>c.bodyA.vel = vSub(c.bodyA.vel, vScale(impulse, c.bodyA.invMass))\<close> and, when
  \<^verbatim>\<open>c.bodyB\<close> is present, \<^verbatim>\<open>c.bodyB.vel = vAdd(c.bodyB.vel, vScale(impulse, c.bodyB.invMass))\<close>.
  The second statement reads the store the first one has written.\<close>

definition applyImpulse :: "Contact \<Rightarrow> Vec2 \<Rightarrow> (bref \<Rightarrow> Body) \<Rightarrow> (bref \<Rightarrow> Body)" where
  "applyImpulse c impulse h =
     (let a = bodyA c;
          h1 = h(a := (h a)\<lparr>vel := vSub (vel (h a)) (vScale impulse (invMass (h a)))\<rparr>)
      in case bodyB c of
           None \<Rightarrow> h1
         | Some b \<Rightarrow> h1(b := (h1 b)\<lparr>vel := vAdd (vel (h1 b)) (vScale impulse (invMass (h1 b)))\<rparr>))"

definition warmStart :: "Contact \<Rightarrow> (bref \<Rightarrow> Body) \<Rightarrow> (bref \<Rightarrow> Body)" where
  "warmStart c h = applyImpulse c (vScale (normal c) (impulseAcc c)) h"

definition warmStartPhase :: "bool \<Rightarrow> Contact list \<Rightarrow> (bref \<Rightarrow> Body) \<Rightarrow> (bref \<Rightarrow> Body)" where
  "warmStartPhase warm cs h = (if warm then fold warmStart cs h else h)"

text \<open>One contact in one sweep. The result is the contact with its new accumulated
  impulse, the store with the delta impulse applied, and \<^verbatim>\<open>lambda\<close>.\<close>

definition contactLambda :: "jsnum \<Rightarrow> Contact \<Rightarrow> (bref \<Rightarrow> Body) \<Rightarrow> jsnum" where
  "contactLambda rest c h =
     (let rv = (case bodyB c of
                  Some b \<Rightarrow> vSub (vel (h b)) (vel (h (bodyA c)))
                | None \<Rightarrow> vSub \<lparr>x = Fin 0, y = Fin 0\<rparr> (vel (h (bodyA c))));
          contactVel = vDot rv (normal c);
          restitutionBias = (if contactVel < Fin (- 1) then (- rest) * contactVel else Fin 0)
      in (- effectiveMass c) * (contactVel + bias c + restitutionBias))"

definition solveContact :: "jsnum \<Rightarrow> Contact \<Rightarrow> (bref \<Rightarrow> Body) \<Rightarrow> Contact \<times> (bref \<Rightarrow> Body) \<times> jsnum" where
  "solveContact rest c h =
     (let lambda = contactLambda rest c h;
          oldImpulse = impulseAcc c;
          newImpulse = Math_max (Fin 0) (oldImpulse + lambda);
          deltaImpulse = newImpulse - oldImpulse;
          impulseVec = vScale (normal c) deltaImpulse
      in (c\<lparr>impulseAcc := newImpulse\<rparr>, applyImpulse c impulseVec h, lambda))"

text \<open>One sweep, \<^verbatim>\<open>contacts.forEach\<close>, carrying the store and \<^verbatim>\<open>maxError\<close>.\<close>

fun sweep :: "jsnum \<Rightarrow> Contact list \<Rightarrow> (bref \<Rightarrow> Body) \<Rightarrow> jsnum \<Rightarrow> Contact list \<times> (bref \<Rightarrow> Body) \<times> jsnum" where
  "sweep rest [] h maxError = ([], h, maxError)"
| "sweep rest (c # cs) h maxError =
     (case solveContact rest c h of
        (c', h', lambda) \<Rightarrow>
          (case sweep rest cs h' (Math_max maxError (Math_abs lambda)) of
             (cs', h'', m) \<Rightarrow> (c' # cs', h'', m)))"

text \<open>The loop \<^verbatim>\<open>for (let i = 0; i < params.iterations; i++)\<close>, on the number of sweeps
  left.\<close>

fun solve :: "jsnum \<Rightarrow> nat \<Rightarrow> Contact list \<Rightarrow> (bref \<Rightarrow> Body) \<Rightarrow> jsnum list \<Rightarrow> Contact list \<times> (bref \<Rightarrow> Body) \<times> jsnum list" where
  "solve rest 0 cs h errs = (cs, h, errs)"
| "solve rest (Suc n) cs h errs =
     (case sweep rest cs h (Fin 0) of
        (cs', h', maxError) \<Rightarrow> solve rest n cs' h' (errs @ [maxError]))"

text \<open>Phase 4 for one body: trail, position update, and the four clamps in the order left,
  right, top, bottom.\<close>

definition recordTrail :: "Body \<Rightarrow> Vec2 list" where
  "recordTrail b =
     (if Fin (1 / 10) < vLen (vel b) then
        (let t = pos b # trail b in if TRAIL_LENGTH < length t then butlast t else t)
      else if 0 < length (trail b) then butlast (trail b)
      else trail b)"

definition clampLeft :: "Body \<Rightarrow> Body" where
  "clampLeft b =
     (if x (pos b) - radius b < Fin 0
      then b\<lparr>pos := (pos b)\<lparr>x := radius b\<rparr>, vel := (vel b)\<lparr>x := x (vel b) * Fin (- (1 / 2))\<rparr>\<rparr>
      else b)"

definition clampRight :: "Body \<Rightarrow> Body" where
  "clampRight b =
     (if widthM < x (pos b) + radius b
      then b\<lparr>pos := (pos b)\<lparr>x := widthM - radius b\<rparr>, vel := (vel b)\<lparr>x := x (vel b) * Fin (- (1 / 2))\<rparr>\<rparr>
      else b)"

definition clampTop :: "Body \<Rightarrow> Body" where
  "clampTop b =
     (if y (pos b) - radius b < Fin 0
      then b\<lparr>pos := (pos b)\<lparr>y := radius b\<rparr>, vel := (vel b)\<lparr>y := y (vel b) * Fin (- (1 / 2))\<rparr>\<rparr>
      else b)"

definition clampBottom :: "Body \<Rightarrow> Body" where
  "clampBottom b =
     (if heightM < y (pos b) + radius b
      then b\<lparr>pos := (pos b)\<lparr>y := heightM - radius b\<rparr>, vel := (vel b)\<lparr>y := y (vel b) * Fin (- (1 / 2))\<rparr>\<rparr>
      else b)"

definition integrate :: "Body \<Rightarrow> Body" where
  "integrate b =
     (if isStatic b \<or> strictEq (invMass b) (Fin 0) then b
      else clampBottom (clampTop (clampRight (clampLeft
             (b\<lparr>trail := recordTrail b, pos := vAdd (pos b) (vScale (vel b) TIMESTEP)\<rparr>)))))"

definition integrateBody :: "bref \<Rightarrow> (bref \<Rightarrow> Body) \<Rightarrow> (bref \<Rightarrow> Body)" where
  "integrateBody b h = h(b := integrate (h b))"

section \<open>\<^verbatim>\<open>stepPhysics\<close>\<close>

text \<open>The store after phase 1, the contacts phase 2 builds from it, the store after the
  warm start, and what the solver returns: the contacts, the store before phase 4 and the
  error sequence.\<close>

definition afterGravity :: "heap \<Rightarrow> SimState \<Rightarrow> params \<Rightarrow> (bref \<Rightarrow> Body)" where
  "afterGravity H state p = fold (applyGravity (gravity p)) (arrays H (bodies state)) (objs H)"

definition detected :: "heap \<Rightarrow> SimState \<Rightarrow> params \<Rightarrow> Contact list" where
  "detected H state p =
     detect (afterGravity H state p) (contacts state) p (arrays H (bodies state))"

definition warmStarted :: "heap \<Rightarrow> SimState \<Rightarrow> params \<Rightarrow> (bref \<Rightarrow> Body)" where
  "warmStarted H state p =
     warmStartPhase (warmStarting p) (detected H state p) (afterGravity H state p)"

definition solved :: "heap \<Rightarrow> SimState \<Rightarrow> params \<Rightarrow> Contact list \<times> (bref \<Rightarrow> Body) \<times> jsnum list" where
  "solved H state p =
     solve (restitution p) (nat (iterations p)) (detected H state p) (warmStarted H state p) []"

definition stepPhysics :: "heap \<Rightarrow> SimState \<Rightarrow> params \<Rightarrow> heap \<times> SimState" where
  "stepPhysics H state p =
     (case solved H state p of
        (cs, h3, errs) \<Rightarrow>
          (H\<lparr>objs := fold integrateBody (arrays H (bodies state)) h3\<rparr>,
           state\<lparr>contacts := cs, solverErrors := errs\<rparr>))"

section \<open>Notions used to state the properties\<close>

text \<open>The values of \<^verbatim>\<open>lambda\<close> that one sweep computes, in the order of the contacts.\<close>

fun sweepLambdas :: "jsnum \<Rightarrow> Contact list \<Rightarrow> (bref \<Rightarrow> Body) \<Rightarrow> jsnum list" where
  "sweepLambdas rest [] h = []"
| "sweepLambdas rest (c # cs) h =
     (case solveContact rest c h of (c', h', lambda) \<Rightarrow> lambda # sweepLambdas rest cs h')"

text \<open>\<^verbatim>\<open>Math.max\<close> of \<open>0\<close> and the absolute values of a list of numbers.\<close>

definition maxAbs :: "jsnum list \<Rightarrow> jsnum" where
  "maxAbs ls = fold (\<lambda>l m. Math_max m (Math_abs l)) ls (Fin 0)"

text \<open>One full sweep as a step on the pair of contact list and store, and \<open>k\<close> such steps.\<close>

definition oneSweep :: "jsnum \<Rightarrow> Contact list \<times> (bref \<Rightarrow> Body) \<Rightarrow> Contact list \<times> (bref \<Rightarrow> Body)" where
  "oneSweep rest st = (case sweep rest (fst st) (snd st) (Fin 0) of (cs', h', m) \<Rightarrow> (cs', h'))"

definition afterSweeps :: "jsnum \<Rightarrow> nat \<Rightarrow> Contact list \<Rightarrow> (bref \<Rightarrow> Body) \<Rightarrow> Contact list \<times> (bref \<Rightarrow> Body)" where
  "afterSweeps rest k cs h = (oneSweep rest ^^ k) (cs, h)"

text \<open>A contact of the previous tick refers to the unordered pair of the ids of the bodies
  \<open>a\<close> and \<open>b\<close>.\<close>

definition sameUnorderedPair :: "(bref \<Rightarrow> Body) \<Rightarrow> bref \<Rightarrow> bref \<Rightarrow> Contact \<Rightarrow> bool" where
  "sameUnorderedPair h a b e =
     (case bodyB e of
        None \<Rightarrow> False
      | Some eb \<Rightarrow> {body_id (h (bodyA e)), body_id (h eb)} = {body_id (h a), body_id (h b)})"

text \<open>A velocity component that is what it was, or NaN.\<close>

definition keptOrNaN :: "Vec2 \<Rightarrow> Vec2 \<Rightarrow> bool" where
  "keptOrNaN v0 v = ((x v = x v0 \<or> x v = NaN) \<and> (y v = y v0 \<or> y v = NaN))"

text \<open>The two velocity updates of \<open>applyImpulse\<close>, on one body.\<close>

definition subVel :: "Vec2 \<Rightarrow> Body \<Rightarrow> Body" where
  "subVel i b = b\<lparr>vel := vSub (vel b) (vScale i (invMass b))\<rparr>"

definition addVel :: "Vec2 \<Rightarrow> Body \<Rightarrow> Body" where
  "addVel i b = b\<lparr>vel := vAdd (vel b) (vScale i (invMass b))\<rparr>"

text \<open>The fields of a body that no phase writes.\<close>

definition sameShape :: "Body \<Rightarrow> Body \<Rightarrow> bool" where
  "sameShape b0 b =
     (body_id b = body_id b0 \<and> radius b = radius b0 \<and> invMass b = invMass b0 \<and>
      isStatic b = isStatic b0)"

text \<open>What a tick keeps of a static body \<open>b0\<close>.\<close>

definition staticFrame :: "Body \<Rightarrow> Body \<Rightarrow> bool" where
  "staticFrame b0 b =
     (pos b = pos b0 \<and> isStatic b \<and> invMass b = invMass b0 \<and>
      (invMass b0 = Fin 0 \<longrightarrow> keptOrNaN (vel b0) (vel b)))"

text \<open>A contact without its accumulated impulse, the one field the solver writes.\<close>

definition eraseImpulse :: "Contact \<Rightarrow> Contact" where
  "eraseImpulse c = c\<lparr>impulseAcc := Fin 0\<rparr>"

text \<open>The bias of a contact is the Baumgarte term of its penetration.\<close>

definition biasOK :: "Contact \<Rightarrow> bool" where
  "biasOK c = (bias c = (- BAUMGARTE) * (Math_min (Fin 0) (penetration c + SLOP) / TIMESTEP))"

text \<open>The error entry of sweep \<open>k\<close>, counted from \<open>0\<close>.\<close>

definition sweepError :: "jsnum \<Rightarrow> Contact list \<Rightarrow> (bref \<Rightarrow> Body) \<Rightarrow> nat \<Rightarrow> jsnum" where
  "sweepError rest cs h k =
     maxAbs (sweepLambdas rest (fst (afterSweeps rest k cs h)) (snd (afterSweeps rest k cs h)))"

text \<open>A body that differs from \<open>b0\<close> in its velocity at most.\<close>

definition untouched :: "Body \<Rightarrow> Body \<Rightarrow> bool" where
  "untouched b0 b = (sameShape b0 b \<and> pos b = pos b0 \<and> trail b = trail b0)"

text \<open>The accumulated impulse a contact is built with.\<close>

definition seeded :: "(bref \<Rightarrow> Body) \<Rightarrow> Contact list \<Rightarrow> bool \<Rightarrow> Contact \<Rightarrow> bool" where
  "seeded h0 prev warm c =
     (case bodyB c of
        None \<Rightarrow> impulseAcc c = Fin 0
      | Some b \<Rightarrow>
          impulseAcc c =
            (if warm then
               (case find (sameUnorderedPair h0 (bodyA c) b) prev of
                  Some e \<Rightarrow> impulseAcc e
                | None \<Rightarrow> Fin 0)
             else Fin 0))"




section \<open>Finite numbers and well-formed worlds\<close>

text \<open>A number that is neither infinite nor NaN.\<close>

fun isFin :: "jsnum \<Rightarrow> bool" where
  "isFin (Fin a) = True"
| "isFin PInf = False"
| "isFin NInf = False"
| "isFin NaN = False"

definition finV :: "Vec2 \<Rightarrow> bool" where
  "finV v = (isFin (x v) \<and> isFin (y v))"

text \<open>The numbers of a body that the pipeline reads are finite.\<close>

definition finBody :: "Body \<Rightarrow> bool" where
  "finBody b = (finV (pos b) \<and> finV (vel b) \<and> isFin (radius b) \<and> isFin (invMass b))"

text \<open>A contact between bodies of the set \<open>R\<close> whose numbers are finite.\<close>

definition finContact :: "bref set \<Rightarrow> Contact \<Rightarrow> bool" where
  "finContact R c =
     (bodyA c \<in> R \<and> (case bodyB c of None \<Rightarrow> True | Some b \<Rightarrow> b \<in> R) \<and>
      finV (normal c) \<and> isFin (penetration c) \<and> isFin (impulseAcc c) \<and>
      isFin (effectiveMass c) \<and> isFin (bias c))"

definition finStore :: "bref set \<Rightarrow> (bref \<Rightarrow> Body) \<Rightarrow> bool" where
  "finStore R h = (\<forall>r \<in> R. finBody (h r))"

text \<open>A body as \<^verbatim>\<open>createBody\<close> builds it, with finite numbers: the inverse mass is zero for a
  static body only, and a body of zero inverse mass does not overlap a wall.\<close>

definition wellFormed :: "(bref \<Rightarrow> Body) \<Rightarrow> jsnum \<Rightarrow> bref \<Rightarrow> bool" where
  "wellFormed h rest r =
     (finBody (h r) \<and> Fin 0 \<le> invMass (h r) \<and>
      (invMass (h r) = Fin 0 \<longrightarrow> isStatic (h r) \<and> wallContacts h rest r = []))"

text \<open>A state and parameters with finite numbers, all bodies of the array well formed.\<close>

definition finiteWorld :: "heap \<Rightarrow> SimState \<Rightarrow> params \<Rightarrow> bool" where
  "finiteWorld H s p =
     (isFin (gravity p) \<and> isFin (restitution p) \<and>
      (\<forall>e \<in> set (contacts s). isFin (impulseAcc e)) \<and>
      (\<forall>r \<in> set (arrays H (bodies s)). wellFormed (objs H) (restitution p) r))"

text \<open>The effective mass of a contact is a finite, positive number.\<close>

definition massOK :: "Contact \<Rightarrow> bool" where
  "massOK c = (isFin (effectiveMass c) \<and> Fin 0 < effectiveMass c)"

text \<open>The disk of a body lies inside the arena.\<close>

definition inArena :: "Body \<Rightarrow> bool" where
  "inArena b =
     (radius b \<le> x (pos b) \<and> x (pos b) \<le> widthM - radius b \<and>
      radius b \<le> y (pos b) \<and> y (pos b) \<le> heightM - radius b)"

text \<open>A finite body of the given radius that phase 4 integrates.\<close>

definition movable :: "jsnum \<Rightarrow> Body \<Rightarrow> bool" where
  "movable rad b = (finBody b \<and> \<not> isStatic b \<and> invMass b \<noteq> Fin 0 \<and> radius b = rad)"

text \<open>The contacts that cannot change the horizontal velocity of the body \<open>r\<close>: a contact
  of other bodies; the contact of \<open>r\<close> with the left wall, with a finite positive effective
  mass and a bias that is not negative; a contact of \<open>r\<close> with the floor or the ceiling.\<close>

definition awayFrom :: "bref \<Rightarrow> Contact \<Rightarrow> bool" where
  "awayFrom r c = (bodyA c \<noteq> r \<and> bodyB c \<noteq> Some r)"

definition leftWallOf :: "bref \<Rightarrow> Contact \<Rightarrow> bool" where
  "leftWallOf r c =
     (bodyA c = r \<and> bodyB c = None \<and> normal c = \<lparr>x = Fin 1, y = Fin 0\<rparr> \<and>
      isFin (effectiveMass c) \<and> Fin 0 < effectiveMass c \<and> Fin 0 \<le> bias c)"

definition floorOrCeilingOf :: "bref \<Rightarrow> Contact \<Rightarrow> bool" where
  "floorOrCeilingOf r c =
     (bodyA c = r \<and> bodyB c = None \<and> x (normal c) = Fin 0 \<and>
      (y (normal c) = Fin 1 \<or> y (normal c) = Fin (- 1)))"

definition unpushing :: "bref \<Rightarrow> Contact \<Rightarrow> bool" where
  "unpushing r c = (awayFrom r c \<or> leftWallOf r c \<or> floorOrCeilingOf r c)"

text \<open>The body \<open>r\<close> has the inverse mass \<open>im\<close>, and its \<^verbatim>\<open>vel.x\<close> is \<open>vx\<close> unless its
  \<^verbatim>\<open>vel.y\<close> has stopped being finite.\<close>

definition keepsX :: "bref \<Rightarrow> jsnum \<Rightarrow> jsnum \<Rightarrow> (bref \<Rightarrow> Body) \<Rightarrow> bool" where
  "keepsX r im vx h =
     (invMass (h r) = im \<and> (\<not> isFin (y (vel (h r))) \<or> x (vel (h r)) = vx))"

section \<open>Concrete worlds\<close>

text \<open>A body as \<^verbatim>\<open>createBody\<close> builds it, for a given radius and velocity instead of
  drawn ones: unit density, \<^verbatim>\<open>invMass\<close> zero exactly for a static body.\<close>

definition mkBody :: "int \<Rightarrow> real \<times> real \<Rightarrow> real \<times> real \<Rightarrow> real \<Rightarrow> bool \<Rightarrow> Body" where
  "mkBody i p v r st =
     \<lparr>body_id = i, pos = \<lparr>x = Fin (fst p), y = Fin (snd p)\<rparr>,
      vel = \<lparr>x = Fin (fst v), y = Fin (snd v)\<rparr>,
      radius = Fin r, mass = Fin (r * r * pi),
      invMass = (if st then Fin 0 else Fin 1 / Fin (r * r * pi)),
      color = ''hsl(0, 70%, 60%)'', body_restitution = Fin (1 / 2), trail = [],
      isStatic = st\<rparr>"

text \<open>A store holding the given bodies at the addresses \<open>0, 1, ...\<close>, listed in that order
  by the array at address \<open>0\<close>.\<close>

definition world :: "Body list \<Rightarrow> heap" where
  "world bs = \<lparr>arrays = (\<lambda>_. [0..<length bs]), objs = (\<lambda>r. if r < length bs then bs ! r else mkBody 0 (0, 0) (0, 0) 1 True)\<rparr>"

definition freshState :: SimState where
  "freshState = \<lparr>bodies = 0, contacts = [], totalEnergy = Fin 0, solverErrors = []\<rparr>"

definition tick :: "jsnum \<Rightarrow> int \<Rightarrow> jsnum \<Rightarrow> bool \<Rightarrow> params" where
  "tick g n e w = \<lparr>gravity = g, iterations = n, restitution = e, warmStarting = w\<rparr>"

text \<open>A static body of radius \<open>17/32\<close> whose centre is \<open>1/2\<close> from the left wall: it
  overlaps the wall by \<open>1/32\<close>, less than the slop.\<close>

definition staticAtWall :: Body where
  "staticAtWall = mkBody 0 (1 / 2, 6) (0, 0) (17 / 32) True"

text \<open>A dynamic body at rest that overlaps the static one.\<close>

definition restingNeighbour :: Body where
  "restingNeighbour = mkBody 1 (3 / 2, 6) (0, 0) (1 / 2) False"


text \<open>Two dynamic bodies on a horizontal line; the left one overlaps the left wall and
  moves towards it, the right one runs into it from behind.\<close>

definition leftBall :: Body where
  "leftBall = mkBody 0 (1 / 4, 6) (- 1, 0) (1 / 2) False"

definition rightBall :: Body where
  "rightBall = mkBody 1 (1, 6) (- 5, 0) (1 / 2) False"

text \<open>A state that carries a contact of the previous tick between the bodies with the ids
  \<open>1\<close> and \<open>0\<close>, in that order.\<close>

definition previousContact :: Contact where
  "previousContact =
     \<lparr>contact_id = ''1-0'', bodyA = 1, bodyB = Some 0, normal = \<lparr>x = Fin (- 1), y = Fin 0\<rparr>,
      penetration = Fin (- (1 / 10)), impulseAcc = Fin (3 / 10), effectiveMass = Fin (pi / 8),
      bias = Fin (3 / 5)\<rparr>"

definition warmState :: SimState where
  "warmState = freshState\<lparr>contacts := [previousContact]\<rparr>"

text \<open>Two more dynamic bodies, far from the left ball, that overlap each other.\<close>

definition midBall :: Body where
  "midBall = mkBody 1 (6, 6) (0, 0) (1 / 2) False"

definition nearBall :: Body where
  "nearBall = mkBody 2 (34 / 5, 6) (0, 0) (1 / 2) False"






section \<open>Properties\<close>

lemmas step_defs =
  stepPhysics_def solved_def warmStarted_def detected_def afterGravity_def detect_def
  wallContacts_def createWallContact_def pairContact_def matchesPair_def
  heightM_def widthM_def CANVAS_WIDTH_def CANVAS_HEIGHT_def PIXELS_PER_METER_def
  BAUMGARTE_def SLOP_def TIMESTEP_def TRAIL_LENGTH_def
  minus_jsnum_def numberToString_def Math_min_def Math_max_def strictEq_def
  applyGravity_def warmStartPhase_def warmStart_def applyImpulse_def
  vScale_def vSub_def vAdd_def vDot_def vLen_def vNorm_def vDist_def
  solveContact_def contactLambda_def
  integrateBody_def integrate_def recordTrail_def
  clampLeft_def clampRight_def clampTop_def clampBottom_def

lemmas world_defs = world_def mkBody_def freshState_def tick_def

subsection \<open>Iteration\<close>

lemma fold_preserves:
  assumes "\<And>b h. P h \<Longrightarrow> P (f b h)" and "P h"
  shows "P (fold f bs h)"
  using assms(2) by (induction bs arbitrary: h) (simp_all add: assms(1))

lemma sweep_preserves:
  assumes "\<And>c i h. P h \<Longrightarrow> P (applyImpulse c i h)" and "P h"
  shows "P (fst (snd (sweep rest cs h m)))"
  using assms(2)
proof (induction cs arbitrary: h m)
  case Nil
  then show ?case by simp
next
  case (Cons c cs)
  obtain c' h' l where sc: "solveContact rest c h = (c', h', l)"
    by (cases "solveContact rest c h") auto
  then have "h' = applyImpulse c (vScale (normal c) (impulseAcc c' - impulseAcc c)) h"
    by (auto simp: solveContact_def Let_def)
  with Cons.prems have "P h'"
    by (simp add: assms(1))
  then have "P (fst (snd (sweep rest cs h' (Math_max m (Math_abs l)))))"
    by (rule Cons.IH)
  then show ?case
    by (auto simp: sc split: prod.splits)
qed

lemma solve_preserves:
  assumes "\<And>c i h. P h \<Longrightarrow> P (applyImpulse c i h)" and "P h"
  shows "P (fst (snd (solve rest n cs h errs)))"
  using assms(2)
proof (induction n arbitrary: cs h errs)
  case 0
  then show ?case by simp
next
  case (Suc n)
  obtain cs' h' m where sw: "sweep rest cs h (Fin 0) = (cs', h', m)"
    by (cases "sweep rest cs h (Fin 0)") auto
  have "P (fst (snd (sweep rest cs h (Fin 0))))"
    using assms(1) Suc.prems by (rule sweep_preserves)
  then have "P h'" by (simp add: sw)
  from Suc.IH[OF this] show ?case by (simp add: sw)
qed

lemma warmStartPhase_preserves:
  assumes "\<And>c i h. P h \<Longrightarrow> P (applyImpulse c i h)" and "P h"
  shows "P (warmStartPhase w cs h)"
proof (cases w)
  case True
  have "P (fold warmStart cs h)"
    by (rule fold_preserves[of P]) (simp_all add: warmStart_def assms)
  with True show ?thesis by (simp add: warmStartPhase_def)
next
  case False
  with assms(2) show ?thesis by (simp add: warmStartPhase_def)
qed

text \<open>The two components of the result.\<close>

lemma contacts_stepPhysics: "contacts (snd (stepPhysics H s p)) = fst (solved H s p)"
  by (simp add: stepPhysics_def split: prod.splits)

lemma objs_stepPhysics:
  "objs (fst (stepPhysics H s p)) = fold integrateBody (arrays H (bodies s)) (fst (snd (solved H s p)))"
  by (simp add: stepPhysics_def split: prod.splits)


subsection \<open>The frame of a tick\<close>

text \<open>
  C10. \<open>stepPhysics\<close> returns the \<^verbatim>\<open>totalEnergy\<close> of its input, and the
  \<^verbatim>\<open>bodies\<close> field of the result is the array object of the input, whose list of
  bodies the tick does not change; only \<^verbatim>\<open>contacts\<close> and \<^verbatim>\<open>solverErrors\<close> are new.
\<close>

theorem stepPhysics_frame:
  "totalEnergy (snd (stepPhysics H s p)) = totalEnergy s \<and>
   bodies (snd (stepPhysics H s p)) = bodies s \<and>
   arrays (fst (stepPhysics H s p)) = arrays H"
  by (simp add: stepPhysics_def split: prod.splits)

subsection \<open>Replacing the body objects\<close>



























subsection \<open>Phases 1 to 3 write velocities only\<close>

lemma applyImpulse_at:
  "applyImpulse c i h r = h r \<or> applyImpulse c i h r = subVel i (h r) \<or>
   applyImpulse c i h r = addVel i (h r) \<or> applyImpulse c i h r = addVel i (subVel i (h r))"
  by (auto simp: applyImpulse_def Let_def subVel_def addVel_def split: option.splits)

lemma applyGravity_untouched: "untouched b0 (h r) \<Longrightarrow> untouched b0 (applyGravity g b h r)"
  by (auto simp: applyGravity_def untouched_def sameShape_def)

lemma applyImpulse_untouched: "untouched b0 (h r) \<Longrightarrow> untouched b0 (applyImpulse c i h r)"
  using applyImpulse_at[of c i h r]
  by (auto simp: untouched_def sameShape_def subVel_def addVel_def)

lemma afterGravity_untouched: "untouched (objs H r) (afterGravity H s p r)"
proof -
  have "untouched (objs H r) (objs H r)"
    by (simp add: untouched_def sameShape_def)
  then show ?thesis
    unfolding afterGravity_def
    by (intro fold_preserves[where P = "\<lambda>h. untouched (objs H r) (h r)"] applyGravity_untouched)
qed

lemma solved_untouched: "untouched (objs H r) (fst (snd (solved H s p)) r)"
proof -
  let ?P = "\<lambda>h. untouched (objs H r) (h r)"
  have "?P (afterGravity H s p)"
    by (rule afterGravity_untouched)
  then have "?P (warmStarted H s p)"
    unfolding warmStarted_def
    by (intro warmStartPhase_preserves[where P = ?P] applyImpulse_untouched)
  then show ?thesis
    unfolding solved_def
    by (intro solve_preserves[where P = ?P] applyImpulse_untouched)
qed

subsection \<open>Static bodies\<close>

lemma kept_minus: "v = v0 \<or> v = NaN \<Longrightarrow> v - i * Fin 0 = v0 \<or> v - i * Fin 0 = NaN"
  by (cases v; cases i) (auto simp: minus_jsnum_def)

lemma kept_plus: "v = v0 \<or> v = NaN \<Longrightarrow> v + i * Fin 0 = v0 \<or> v + i * Fin 0 = NaN"
  by (cases v; cases i) auto

lemma subVel_static: "staticFrame b0 b \<Longrightarrow> staticFrame b0 (subVel i b)"
  using kept_minus[of "x (vel b)" "x (vel b0)" "x i"] kept_minus[of "y (vel b)" "y (vel b0)" "y i"]
  by (auto simp: staticFrame_def subVel_def keptOrNaN_def vSub_def vScale_def)

lemma addVel_static: "staticFrame b0 b \<Longrightarrow> staticFrame b0 (addVel i b)"
  using kept_plus[of "x (vel b)" "x (vel b0)" "x i"] kept_plus[of "y (vel b)" "y (vel b0)" "y i"]
  by (auto simp: staticFrame_def addVel_def keptOrNaN_def vAdd_def vScale_def)

lemma applyGravity_static: "staticFrame b0 (h r) \<Longrightarrow> staticFrame b0 (applyGravity g b h r)"
  by (auto simp: applyGravity_def staticFrame_def)

lemma applyImpulse_static:
  assumes "staticFrame b0 (h r)"
  shows "staticFrame b0 (applyImpulse c i h r)"
  using applyImpulse_at[of c i h r] subVel_static[OF assms, of i] addVel_static[OF assms, of i]
    addVel_static[OF subVel_static[OF assms, of i], of i] assms
  by auto

lemma integrateBody_static: "staticFrame b0 (h r) \<Longrightarrow> staticFrame b0 (integrateBody b h r)"
  by (auto simp: integrateBody_def integrate_def staticFrame_def)

lemma staticFrame_stepPhysics:
  assumes "isStatic (objs H r)"
  shows "staticFrame (objs H r) (objs (fst (stepPhysics H s p)) r)"
proof -
  let ?P = "\<lambda>h. staticFrame (objs H r) (h r)"
  have "?P (objs H)"
    using assms by (simp add: staticFrame_def keptOrNaN_def)
  then have "?P (afterGravity H s p)"
    unfolding afterGravity_def
    by (intro fold_preserves[where P = ?P] applyGravity_static)
  then have "?P (warmStarted H s p)"
    unfolding warmStarted_def
    by (intro warmStartPhase_preserves[where P = ?P] applyImpulse_static)
  then have "?P (fst (snd (solved H s p)))"
    unfolding solved_def
    by (intro solve_preserves[where P = ?P] applyImpulse_static)
  then have "?P (fold integrateBody (arrays H (bodies s)) (fst (snd (solved H s p))))"
    by (intro fold_preserves[where P = ?P] integrateBody_static)
  then show ?thesis
    by (simp add: objs_stepPhysics)
qed




subsection \<open>Contacts through the solver\<close>

lemma solveContact_erase: "eraseImpulse (fst (solveContact rest c h)) = eraseImpulse c"
  by (simp add: solveContact_def eraseImpulse_def Let_def)

lemma sweep_erase: "map eraseImpulse (fst (sweep rest cs h m)) = map eraseImpulse cs"
proof (induction cs arbitrary: h m)
  case Nil
  show ?case by simp
next
  case (Cons c cs)
  obtain c' h' l where sc: "solveContact rest c h = (c', h', l)"
    by (cases "solveContact rest c h") auto
  have "eraseImpulse c' = eraseImpulse c"
    using solveContact_erase[of rest c h] by (simp add: sc)
  with Cons.IH[of h' "Math_max m (Math_abs l)"] show ?case
    by (auto simp: sc split: prod.splits)
qed

lemma solve_erase: "map eraseImpulse (fst (solve rest n cs h errs)) = map eraseImpulse cs"
proof (induction n arbitrary: cs h errs)
  case 0
  show ?case by simp
next
  case (Suc n)
  obtain cs' h' m where sw: "sweep rest cs h (Fin 0) = (cs', h', m)"
    by (cases "sweep rest cs h (Fin 0)") auto
  have "map eraseImpulse cs' = map eraseImpulse cs"
    using sweep_erase[of rest cs h "Fin 0"] by (simp add: sw)
  with Suc.IH[of cs' h' "errs @ [m]"] show ?case
    by (simp add: sw)
qed

lemma stepPhysics_erase:
  "map eraseImpulse (contacts (snd (stepPhysics H s p))) = map eraseImpulse (detected H s p)"
  by (simp add: contacts_stepPhysics solved_def solve_erase)

lemma bias_erase: "bias (eraseImpulse c) = bias c" "penetration (eraseImpulse c) = penetration c"
  by (simp_all add: eraseImpulse_def)

subsection \<open>The concrete worlds, evaluated\<close>

lemma sqrt_9_16: "sqrt (9 / 16) = 3 / 4"
  by (rule real_sqrt_unique) (simp_all add: power2_eq_square)

lemma sqrt_81_25: "sqrt (81 / 25) = 9 / 5"
  by (rule real_sqrt_unique) (simp_all add: power2_eq_square)

lemma sqrt_441_25: "sqrt (441 / 25) = 21 / 5"
  by (rule real_sqrt_unique) (simp_all add: power2_eq_square)

lemma staticAtWall_detected:
  "detected (world [staticAtWall]) freshState (tick (Fin 0) 1 (Fin (4 / 5)) True) =
     [\<lparr>contact_id = ''wall-0'', bodyA = 0, bodyB = None, normal = \<lparr>x = Fin 1, y = Fin 0\<rparr>,
       penetration = Fin (- (1 / 32)), impulseAcc = Fin 0, effectiveMass = PInf, bias = Fin 0\<rparr>]"
  by (simp add: step_defs world_defs staticAtWall_def Let_def)

lemma twoBalls_detected:
  "detected (world [leftBall, rightBall]) freshState (tick (Fin 0) 1 (Fin 0) False) =
     [\<lparr>contact_id = ''wall-0'', bodyA = 0, bodyB = None, normal = \<lparr>x = Fin 1, y = Fin 0\<rparr>,
       penetration = Fin (- (1 / 4)), impulseAcc = Fin 0, effectiveMass = Fin (pi / 4),
       bias = Fin (12 / 5)\<rparr>,
      \<lparr>contact_id = ''0-1'', bodyA = 0, bodyB = Some 1, normal = \<lparr>x = Fin 1, y = Fin 0\<rparr>,
       penetration = Fin (- (1 / 4)), impulseAcc = Fin 0, effectiveMass = Fin (pi / 8),
       bias = Fin (12 / 5)\<rparr>]"
  by (simp add: step_defs world_defs leftBall_def rightBall_def Let_def sqrt_9_16)

lemma twoBalls_lambdas:
  "sweepLambdas (Fin 0) (detected (world [leftBall, rightBall]) freshState (tick (Fin 0) 1 (Fin 0) False))
     (warmStarted (world [leftBall, rightBall]) freshState (tick (Fin 0) 1 (Fin 0) False)) =
   [Fin (- (pi * 17 / 20)), Fin (pi / 5)]"
  by (simp add: twoBalls_detected)
     (simp add: step_defs world_defs leftBall_def rightBall_def Let_def)

lemma twoBalls_warm_detected:
  "detected (world [leftBall, rightBall]) warmState (tick (Fin 0) 0 (Fin 0) True) =
     [\<lparr>contact_id = ''wall-0'', bodyA = 0, bodyB = None, normal = \<lparr>x = Fin 1, y = Fin 0\<rparr>,
       penetration = Fin (- (1 / 4)), impulseAcc = Fin 0, effectiveMass = Fin (pi / 4),
       bias = Fin (12 / 5)\<rparr>,
      \<lparr>contact_id = ''0-1'', bodyA = 0, bodyB = Some 1, normal = \<lparr>x = Fin 1, y = Fin 0\<rparr>,
       penetration = Fin (- (1 / 4)), impulseAcc = Fin (3 / 10), effectiveMass = Fin (pi / 8),
       bias = Fin (12 / 5)\<rparr>]"
  by (simp add: step_defs world_defs leftBall_def rightBall_def warmState_def previousContact_def
      Let_def sqrt_9_16)

lemma sqrt_529_16: "sqrt (529 / 16) = 23 / 4"
  by (rule real_sqrt_unique) (simp_all add: power2_eq_square)

lemma sqrt_17161_400: "sqrt (17161 / 400) = 131 / 20"
  by (rule real_sqrt_unique) (simp_all add: power2_eq_square)

lemma sqrt_16_25: "sqrt (16 / 25) = 4 / 5"
  by (rule real_sqrt_unique) (simp_all add: power2_eq_square)

lemma threeBalls_detected:
  "detected (world [leftBall, midBall, nearBall]) freshState (tick (Fin 10) 2 (Fin (4 / 5)) True) =
     [\<lparr>contact_id = ''wall-0'', bodyA = 0, bodyB = None, normal = \<lparr>x = Fin 1, y = Fin 0\<rparr>,
       penetration = Fin (- (1 / 4)), impulseAcc = Fin 0, effectiveMass = Fin (pi / 4),
       bias = Fin (12 / 5)\<rparr>,
      \<lparr>contact_id = ''1-2'', bodyA = 1, bodyB = Some 2, normal = \<lparr>x = Fin 1, y = Fin 0\<rparr>,
       penetration = Fin (- (1 / 5)), impulseAcc = Fin 0, effectiveMass = Fin (pi / 8),
       bias = Fin (9 / 5)\<rparr>]"
  by (simp add: step_defs world_defs leftBall_def midBall_def nearBall_def Let_def
      sqrt_529_16 sqrt_17161_400 sqrt_16_25)

lemma threeBalls_solved_vel:
  "vel (fst (snd (solved (world [leftBall, midBall, nearBall]) freshState (tick (Fin 10) 2 (Fin (4 / 5)) True))) 0) =
     \<lparr>x = Fin (- 1), y = Fin (1 / 6)\<rparr>"
  by (simp add: solved_def threeBalls_detected)
     (simp add: step_defs world_defs leftBall_def midBall_def nearBall_def Let_def eval_nat_numeral)

subsection \<open>The wall contact of a static body\<close>

text \<open>
  C2 fails on the code. A static body of zero inverse mass that overlaps the left wall gets a
  wall contact whose \<^verbatim>\<open>effectiveMass\<close> is \<^verbatim>\<open>1 / 0\<close>, that is, infinite.
\<close>

theorem wall_contact_of_static_body:
  "isStatic (objs (world [staticAtWall]) 0) \<and>
   map effectiveMass (contacts (snd (stepPhysics (world [staticAtWall]) freshState (tick (Fin 0) 1 (Fin (4 / 5)) True)))) = [PInf]"
  by (simp add: step_defs world_defs staticAtWall_def Let_def)

text \<open>
  C3 fails on the code. In the same world the first sweep computes
  \<^verbatim>\<open>lambda = -Infinity * 0\<close>, which is NaN, and \<^verbatim>\<open>Math.max(0, 0 + NaN)\<close> is NaN:
  the contact leaves the tick with an accumulated impulse that is not \<open>\<ge> 0\<close>.
\<close>

theorem impulse_of_static_wall_contact:
  "contacts freshState = [] \<and>
   map impulseAcc (contacts (snd (stepPhysics (world [staticAtWall]) freshState (tick (Fin 0) 1 (Fin (4 / 5)) True)))) = [NaN] \<and>
   \<not> Fin 0 \<le> NaN"
  by (simp add: step_defs world_defs staticAtWall_def Let_def)

text \<open>
  C9 fails on the code. A dynamic body at rest that overlaps that static body receives the
  NaN velocity through their contact and is integrated to a NaN position, which no clamp
  test catches.
\<close>

theorem neighbour_of_static_wall_body:
  "\<not> isStatic (objs (world [staticAtWall, restingNeighbour]) 1) \<and>
   radius (objs (world [staticAtWall, restingNeighbour]) 1) = Fin (1 / 2) \<and>
   pos (objs (fst (stepPhysics (world [staticAtWall, restingNeighbour]) freshState (tick (Fin 0) 1 (Fin (4 / 5)) True))) 1) =
     \<lparr>x = NaN, y = NaN\<rparr> \<and>
   \<not> Fin (1 / 2) \<le> NaN"
  by (simp add: step_defs world_defs staticAtWall_def restingNeighbour_def Let_def)

subsection \<open>Warm start\<close>

lemma matchesPair_unordered:
  assumes "\<And>r. body_id (h r) = body_id (h0 r)"
  shows "matchesPair h (body_id (h a)) (body_id (h b)) = sameUnorderedPair h0 a b"
  by (rule ext) (auto simp: matchesPair_def sameUnorderedPair_def assms doubleton_eq_iff split: option.splits)

lemma seeded_wall: "c \<in> set (wallContacts h rest b) \<Longrightarrow> seeded h0 prev warm c"
  by (auto simp: wallContacts_def createWallContact_def seeded_def Let_def split: if_splits)

lemma seeded_pair:
  assumes "\<And>r. body_id (h r) = body_id (h0 r)" and "c \<in> set (pairContact h prev warm a b)"
  shows "seeded h0 prev warm c"
  using assms(2)
  by (auto simp: pairContact_def seeded_def Let_def matchesPair_unordered[of h h0, OF assms(1)]
      split: if_splits)

lemma seeded_pairLoop:
  assumes "\<And>r. body_id (h r) = body_id (h0 r)" and "c \<in> set (pairLoop h prev warm bs)"
  shows "seeded h0 prev warm c"
  using assms(2) by (induction bs) (auto intro: seeded_pair[OF assms(1)])

lemma seeded_detected: "c \<in> set (detected H s p) \<Longrightarrow> seeded (objs H) (contacts s) (warmStarting p) c"
proof -
  have "body_id (afterGravity H s p r) = body_id (objs H r)" for r
    using afterGravity_untouched[of H r s p] by (simp add: untouched_def sameShape_def)
  then show "c \<in> set (detected H s p) \<Longrightarrow> seeded (objs H) (contacts s) (warmStarting p) c"
    by (auto simp: detected_def detect_def intro: seeded_wall seeded_pairLoop)
qed

lemma warmStart_at:
  "warmStart c h (bodyA c) =
     (if bodyB c = Some (bodyA c)
      then addVel (vScale (normal c) (impulseAcc c)) (subVel (vScale (normal c) (impulseAcc c)) (h (bodyA c)))
      else subVel (vScale (normal c) (impulseAcc c)) (h (bodyA c)))"
  "bodyB c = Some b \<Longrightarrow> b \<noteq> bodyA c \<Longrightarrow>
     warmStart c h b = addVel (vScale (normal c) (impulseAcc c)) (h b)"
  "r \<noteq> bodyA c \<Longrightarrow> bodyB c \<noteq> Some r \<Longrightarrow> warmStart c h r = h r"
  by (auto simp: warmStart_def applyImpulse_def subVel_def addVel_def Let_def split: option.splits)

text \<open>
  C4. Every wall contact is built with \<^verbatim>\<open>impulseAcc = 0\<close>. A body-body contact is built with
  the accumulated impulse of the first contact of the previous tick that refers to the same
  unordered pair of body ids when \<^verbatim>\<open>warmStarting\<close> is on and such a contact exists, and with
  \<open>0\<close> otherwise. With \<^verbatim>\<open>warmStarting\<close> on, the store that the solver starts from is the one
  after gravity with \<open>warmStart\<close> run over the contacts in order, and \<open>warmStart\<close> of a contact
  subtracts \<^verbatim>\<open>normal * impulseAcc * invMass\<close> from the velocity of \<^verbatim>\<open>bodyA\<close>, adds it to the
  velocity of \<^verbatim>\<open>bodyB\<close> and touches no other body. With \<^verbatim>\<open>warmStarting\<close> off the solver
  starts from the store after gravity.
\<close>

theorem warm_start:
  "(\<forall>c \<in> set (detected H s p).
      case bodyB c of
        None \<Rightarrow> impulseAcc c = Fin 0
      | Some b \<Rightarrow>
          impulseAcc c =
            (if warmStarting p then
               (case find (sameUnorderedPair (objs H) (bodyA c) b) (contacts s) of
                  Some e \<Rightarrow> impulseAcc e
                | None \<Rightarrow> Fin 0)
             else Fin 0)) \<and>
   (warmStarting p \<longrightarrow>
      warmStarted H s p = fold warmStart (detected H s p) (afterGravity H s p)) \<and>
   (\<not> warmStarting p \<longrightarrow> warmStarted H s p = afterGravity H s p) \<and>
   (\<forall>c h.
      warmStart c h (bodyA c) =
        (if bodyB c = Some (bodyA c)
         then addVel (vScale (normal c) (impulseAcc c))
                (subVel (vScale (normal c) (impulseAcc c)) (h (bodyA c)))
         else subVel (vScale (normal c) (impulseAcc c)) (h (bodyA c))) \<and>
      (\<forall>b. bodyB c = Some b \<and> b \<noteq> bodyA c \<longrightarrow>
         warmStart c h b = addVel (vScale (normal c) (impulseAcc c)) (h b)) \<and>
      (\<forall>r. r \<noteq> bodyA c \<and> bodyB c \<noteq> Some r \<longrightarrow> warmStart c h r = h r)) \<and>
   solved H s p =
     solve (restitution p) (nat (iterations p)) (detected H s p) (warmStarted H s p) []"
proof -
  have "\<forall>c \<in> set (detected H s p). seeded (objs H) (contacts s) (warmStarting p) c"
    by (blast intro: seeded_detected)
  then show ?thesis
    unfolding seeded_def
    by (simp add: warmStarted_def warmStartPhase_def solved_def warmStart_at)
qed

text \<open>
  Witness for C4: the two balls with a previous contact between the ids \<open>1\<close> and \<open>0\<close> that
  carries the impulse \<open>3/10\<close>.
\<close>

theorem warm_start_witness:
  "warmStarting (tick (Fin 0) 0 (Fin 0) True) \<and>
   map bodyB (detected (world [leftBall, rightBall]) warmState (tick (Fin 0) 0 (Fin 0) True)) =
     [None, Some 1] \<and>
   find (sameUnorderedPair (objs (world [leftBall, rightBall])) 0 1) (contacts warmState) =
     Some previousContact \<and>
   map impulseAcc (detected (world [leftBall, rightBall]) warmState (tick (Fin 0) 0 (Fin 0) True)) =
     [Fin 0, Fin (3 / 10)] \<and>
   x (vel (warmStarted (world [leftBall, rightBall]) warmState (tick (Fin 0) 0 (Fin 0) True) 0)) =
     Fin (- 1 - 6 / (5 * pi)) \<and>
   x (vel (warmStarted (world [leftBall, rightBall]) warmState (tick (Fin 0) 0 (Fin 0) True) 1)) =
     Fin (- 5 + 6 / (5 * pi))"
proof -
  let ?W = "world [leftBall, rightBall]" and ?P = "tick (Fin 0) 0 (Fin 0) True"
  note t = warm_start[of ?W warmState ?P]
  have w: "warmStarting ?P"
    by (simp add: tick_def)
  have f: "find (sameUnorderedPair (objs ?W) 0 1) (contacts warmState) = Some previousContact"
    by (simp add: sameUnorderedPair_def warmState_def previousContact_def world_defs
        leftBall_def rightBall_def insert_commute)
  have b: "map bodyB (detected ?W warmState ?P) = [None, Some 1]"
    by (simp add: twoBalls_warm_detected)
  have i: "map impulseAcc (detected ?W warmState ?P) = [Fin 0, Fin (3 / 10)]"
    by (simp add: twoBalls_warm_detected)
  from t w have "warmStarted ?W warmState ?P =
      fold warmStart (detected ?W warmState ?P) (afterGravity ?W warmState ?P)"
    by blast
  then have v: "x (vel (warmStarted ?W warmState ?P 0)) = Fin (- 1 - 6 / (5 * pi))"
    "x (vel (warmStarted ?W warmState ?P 1)) = Fin (- 5 + 6 / (5 * pi))"
    by (simp_all only: twoBalls_warm_detected)
       (simp_all add: warmStart_def applyImpulse_def Let_def vScale_def
        vSub_def vAdd_def minus_jsnum_def afterGravity_def applyGravity_def strictEq_def
        TIMESTEP_def world_defs leftBall_def rightBall_def warmState_def)
  show ?thesis
    by (intro conjI w b f i v)
qed

subsection \<open>The Baumgarte term\<close>

lemma biasOK_wall: "c \<in> set (wallContacts h rest b) \<Longrightarrow> biasOK c"
  by (auto simp: wallContacts_def createWallContact_def biasOK_def Let_def split: if_splits)

lemma biasOK_pair: "c \<in> set (pairContact h prev warm a b) \<Longrightarrow> biasOK c"
  by (auto simp: pairContact_def biasOK_def Let_def split: if_splits)

lemma biasOK_pairLoop: "c \<in> set (pairLoop h prev warm bs) \<Longrightarrow> biasOK c"
  by (induction bs) (auto dest: biasOK_pair)

lemma biasOK_detect: "c \<in> set (detect h prev p bs) \<Longrightarrow> biasOK c"
  by (auto simp: detect_def dest: biasOK_wall biasOK_pairLoop)

lemma bias_zero:
  "- SLOP \<le> pen \<Longrightarrow> (- BAUMGARTE) * (Math_min (Fin 0) (pen + SLOP) / TIMESTEP) = Fin 0"
  by (cases pen) (auto simp: SLOP_def BAUMGARTE_def TIMESTEP_def Math_min_def)

lemma bias_positive:
  "pen < - SLOP \<Longrightarrow> Fin 0 < (- BAUMGARTE) * (Math_min (Fin 0) (pen + SLOP) / TIMESTEP)"
  by (cases pen) (auto simp: SLOP_def BAUMGARTE_def TIMESTEP_def Math_min_def)

text \<open>
  C5. Every contact that \<open>stepPhysics\<close> returns, wall or body-body, has the bias
  \<^verbatim>\<open>-BAUMGARTE * (Math.min(0, penetration + SLOP) / TIMESTEP)\<close> of its own penetration; the
  solver changes neither field after the contact was built. The bias is \<open>0\<close> when the
  penetration is at least \<open>- SLOP\<close> and positive when it is below \<open>- SLOP\<close>.
\<close>

theorem baumgarte_bias:
  "map bias (contacts (snd (stepPhysics H s p))) = map bias (detected H s p) \<and>
   map penetration (contacts (snd (stepPhysics H s p))) = map penetration (detected H s p) \<and>
   (\<forall>c \<in> set (contacts (snd (stepPhysics H s p))).
      bias c = (- BAUMGARTE) * (Math_min (Fin 0) (penetration c + SLOP) / TIMESTEP) \<and>
      (- SLOP \<le> penetration c \<longrightarrow> bias c = Fin 0) \<and>
      (penetration c < - SLOP \<longrightarrow> Fin 0 < bias c))"
proof -
  let ?cs = "contacts (snd (stepPhysics H s p))"
  have e: "map eraseImpulse ?cs = map eraseImpulse (detected H s p)"
    by (rule stepPhysics_erase)
  have "map bias ?cs = map (bias \<circ> eraseImpulse) ?cs"
    by (simp add: bias_erase)
  also have "\<dots> = map (bias \<circ> eraseImpulse) (detected H s p)"
    using e by (metis map_map)
  finally have b: "map bias ?cs = map bias (detected H s p)"
    by (simp add: bias_erase)
  have "map penetration ?cs = map (penetration \<circ> eraseImpulse) ?cs"
    by (simp add: bias_erase)
  also have "\<dots> = map (penetration \<circ> eraseImpulse) (detected H s p)"
    using e by (metis map_map)
  finally have q: "map penetration ?cs = map penetration (detected H s p)"
    by (simp add: bias_erase)
  have ok: "biasOK c" if "c \<in> set ?cs" for c
  proof -
    from that have "eraseImpulse c \<in> set (map eraseImpulse (detected H s p))"
      using e by (metis imageI set_map)
    then obtain d where d: "d \<in> set (detected H s p)" "eraseImpulse c = eraseImpulse d"
      by auto
    from d(1) have "biasOK d"
      unfolding detected_def by (rule biasOK_detect)
    moreover from d(2) have "bias c = bias d" "penetration c = penetration d"
      by (metis bias_erase(1), metis bias_erase(2))
    ultimately show ?thesis
      by (simp add: biasOK_def)
  qed
  show ?thesis
    using b q ok by (auto simp: biasOK_def bias_zero bias_positive)
qed

text \<open>
  Witness for C5: the shallow wall contact of the static body (penetration \<open>- 1/32\<close>, bias
  \<open>0\<close>) and the two contacts of the two balls (penetration \<open>- 1/4\<close>, positive bias).
\<close>

theorem baumgarte_bias_witness:
  "map penetration (contacts (snd (stepPhysics (world [staticAtWall]) freshState (tick (Fin 0) 1 (Fin (4 / 5)) True)))) =
     [Fin (- (1 / 32))] \<and>
   - SLOP \<le> Fin (- (1 / 32)) \<and>
   map bias (contacts (snd (stepPhysics (world [staticAtWall]) freshState (tick (Fin 0) 1 (Fin (4 / 5)) True)))) =
     [Fin 0] \<and>
   map penetration (contacts (snd (stepPhysics (world [leftBall, rightBall]) freshState (tick (Fin 0) 1 (Fin 0) False)))) =
     [Fin (- (1 / 4)), Fin (- (1 / 4))] \<and>
   Fin (- (1 / 4)) < - SLOP \<and>
   map bias (contacts (snd (stepPhysics (world [leftBall, rightBall]) freshState (tick (Fin 0) 1 (Fin 0) False)))) =
     [Fin (12 / 5), Fin (12 / 5)]"
proof -
  note a = baumgarte_bias[of "world [staticAtWall]" freshState "tick (Fin 0) 1 (Fin (4 / 5)) True"]
  note b = baumgarte_bias[of "world [leftBall, rightBall]" freshState "tick (Fin 0) 1 (Fin 0) False"]
  have s: "- SLOP \<le> Fin (- (1 / 32))" "Fin (- (1 / 4)) < - SLOP"
    by (simp_all add: SLOP_def)
  from a b s show ?thesis
    by (simp add: staticAtWall_detected twoBalls_detected)
qed

subsection \<open>Sweeps and the error sequence\<close>

lemma length_sweepLambdas: "length (sweepLambdas rest cs h) = length cs"
  by (induction cs arbitrary: h) (auto split: prod.splits)

lemma sweep_maxError:
  "snd (snd (sweep rest cs h m)) = fold (\<lambda>l m. Math_max m (Math_abs l)) (sweepLambdas rest cs h) m"
proof (induction cs arbitrary: h m)
  case Nil
  show ?case by simp
next
  case (Cons c cs)
  obtain c' h' l where sc: "solveContact rest c h = (c', h', l)"
    by (cases "solveContact rest c h") auto
  from Cons.IH[of h' "Math_max m (Math_abs l)"] show ?case
    by (auto simp: sc split: prod.splits)
qed

lemma sweep_oneSweep:
  "sweep rest cs h (Fin 0) =
     (fst (oneSweep rest (cs, h)), snd (oneSweep rest (cs, h)), maxAbs (sweepLambdas rest cs h))"
  using sweep_maxError[of rest cs h "Fin 0"]
  by (auto simp: oneSweep_def maxAbs_def split: prod.splits)

lemma afterSweeps_0: "afterSweeps rest 0 cs h = (cs, h)"
  by (simp add: afterSweeps_def)

lemma afterSweeps_Suc:
  "afterSweeps rest (Suc k) cs h =
     afterSweeps rest k (fst (oneSweep rest (cs, h))) (snd (oneSweep rest (cs, h)))"
  by (simp add: afterSweeps_def funpow_swap1)

lemma solve_afterSweeps:
  "solve rest n cs h errs =
     (fst (afterSweeps rest n cs h), snd (afterSweeps rest n cs h),
      errs @ map (sweepError rest cs h) [0..<n])"
proof (induction n arbitrary: cs h errs)
  case 0
  show ?case by (simp add: afterSweeps_0)
next
  case (Suc n)
  let ?cs = "fst (oneSweep rest (cs, h))" and ?h = "snd (oneSweep rest (cs, h))"
  have shift: "sweepError rest ?cs ?h k = sweepError rest cs h (Suc k)" for k
    by (simp add: sweepError_def afterSweeps_Suc)
  have "map (sweepError rest cs h) [0..<Suc n] =
          sweepError rest cs h 0 # map (sweepError rest cs h) (map Suc [0..<n])"
    by (simp only: map_Suc_upt upt_conv_Cons[of 0 "Suc n"]) simp
  also have "sweepError rest cs h 0 = maxAbs (sweepLambdas rest cs h)"
    by (simp add: sweepError_def afterSweeps_0)
  also have "map (sweepError rest cs h) (map Suc [0..<n]) = map (sweepError rest ?cs ?h) [0..<n]"
    by (simp add: shift)
  finally have m: "map (sweepError rest cs h) [0..<Suc n] =
      maxAbs (sweepLambdas rest cs h) # map (sweepError rest ?cs ?h) [0..<n]" .
  show ?case
    by (simp only: solve.simps sweep_oneSweep prod.case Suc.IH afterSweeps_Suc m) simp
qed

lemma afterSweeps_length: "length (fst (afterSweeps rest k cs h)) = length cs"
proof (induction k arbitrary: cs h)
  case 0
  show ?case by (simp add: afterSweeps_0)
next
  case (Suc k)
  have "map eraseImpulse (fst (oneSweep rest (cs, h))) = map eraseImpulse cs"
    using sweep_erase[of rest cs h "Fin 0"] by (simp add: sweep_oneSweep)
  then have "length (fst (oneSweep rest (cs, h))) = length cs"
    by (metis length_map)
  with Suc.IH show ?case
    by (simp add: afterSweeps_Suc)
qed

lemma Math_max_cases: "a \<noteq> NaN \<Longrightarrow> b \<noteq> NaN \<Longrightarrow> Math_max a b = a \<or> Math_max a b = b"
  by (simp add: Math_max_def)

lemma Math_max_ge: "a \<noteq> NaN \<Longrightarrow> b \<noteq> NaN \<Longrightarrow> a \<le> Math_max a b \<and> b \<le> Math_max a b"
  by (cases a; cases b) (auto simp: Math_max_def)

lemma jsnum_le_trans: "(a::jsnum) \<le> b \<Longrightarrow> b \<le> c \<Longrightarrow> a \<le> c"
  by (cases a; cases b; cases c) auto

lemma Math_abs_NaN: "Math_abs l = NaN \<longleftrightarrow> l = NaN"
  by (cases l) auto

lemma Math_abs_nonneg: "l \<noteq> NaN \<Longrightarrow> Fin 0 \<le> Math_abs l"
  by (cases l) auto

lemma jsnum_le_antisym: "(a::jsnum) \<le> b \<Longrightarrow> b \<le> a \<Longrightarrow> a = b"
  by (cases a; cases b) auto

lemma fold_max:
  assumes "m \<noteq> NaN" and "NaN \<notin> set ls"
  shows "fold (\<lambda>l m. Math_max m (Math_abs l)) ls m \<noteq> NaN \<and>
         m \<le> fold (\<lambda>l m. Math_max m (Math_abs l)) ls m \<and>
         (\<forall>l \<in> set ls. Math_abs l \<le> fold (\<lambda>l m. Math_max m (Math_abs l)) ls m) \<and>
         (fold (\<lambda>l m. Math_max m (Math_abs l)) ls m = m \<or>
          (\<exists>l \<in> set ls. fold (\<lambda>l m. Math_max m (Math_abs l)) ls m = Math_abs l))"
  using assms
proof (induction ls arbitrary: m)
  case Nil
  then show ?case by (cases m) auto
next
  case (Cons l ls)
  let ?m = "Math_max m (Math_abs l)"
  let ?F = "fold (\<lambda>l m. Math_max m (Math_abs l)) ls ?m"
  from Cons.prems have l: "Math_abs l \<noteq> NaN" and ls: "NaN \<notin> set ls"
    by (auto simp: Math_abs_NaN)
  from Cons.prems(1) l have c: "?m = m \<or> ?m = Math_abs l" and g: "m \<le> ?m" "Math_abs l \<le> ?m"
    and n: "?m \<noteq> NaN"
    using Math_max_cases[of m "Math_abs l"] Math_max_ge[of m "Math_abs l"] by auto
  from Cons.IH[OF n ls] have ih: "?F \<noteq> NaN" "?m \<le> ?F" "\<forall>l \<in> set ls. Math_abs l \<le> ?F"
    "?F = ?m \<or> (\<exists>l \<in> set ls. ?F = Math_abs l)"
    by auto
  have "m \<le> ?F" "Math_abs l \<le> ?F"
    using g ih(2) by (blast intro: jsnum_le_trans)+
  moreover have "?F = m \<or> (\<exists>k \<in> set (l # ls). ?F = Math_abs k)"
    using c ih(4) by auto
  ultimately show ?case
    using ih(1,3) by simp
qed

lemma maxAbs_is_max:
  assumes "ls \<noteq> []" and "NaN \<notin> set ls"
  shows "(\<exists>l \<in> set ls. maxAbs ls = Math_abs l) \<and> (\<forall>l \<in> set ls. Math_abs l \<le> maxAbs ls)"
proof -
  have f: "\<forall>l \<in> set ls. Math_abs l \<le> maxAbs ls"
    "maxAbs ls = Fin 0 \<or> (\<exists>l \<in> set ls. maxAbs ls = Math_abs l)"
    using fold_max[of "Fin 0" ls] assms(2) by (auto simp: maxAbs_def)
  from assms(1) obtain l where l: "l \<in> set ls"
    by (cases ls) auto
  with assms(2) have "l \<noteq> NaN" by auto
  then have "Fin 0 \<le> Math_abs l" by (rule Math_abs_nonneg)
  moreover from f(1) l have "Math_abs l \<le> maxAbs ls" by blast
  ultimately have "maxAbs ls = Fin 0 \<Longrightarrow> maxAbs ls = Math_abs l"
    by (auto intro: jsnum_le_antisym)
  with f l show ?thesis by blast
qed

text \<open>
  C6. With \<^verbatim>\<open>iterations = n \<ge> 0\<close> the solver runs \<open>n\<close> sweeps: the returned contacts are the
  detected ones after \<open>n\<close> applications of one full sweep, and \<^verbatim>\<open>solverErrors\<close> has \<open>n\<close>
  entries. Sweep \<open>k\<close> computes one \<^verbatim>\<open>lambda\<close> for every contact, and entry \<open>k\<close> is
  \<^verbatim>\<open>Math.max\<close> over \<open>0\<close> and their absolute values: the greatest \<open>|lambda|\<close> of the sweep,
  whenever the sweep has a contact and no \<^verbatim>\<open>lambda\<close> is NaN. With \<open>n = 0\<close> the tick returns the
  detected contacts as they were built and an empty error sequence.
\<close>

theorem solver_sweeps:
  assumes "0 \<le> iterations p"
  shows "int (length (solverErrors (snd (stepPhysics H s p)))) = iterations p \<and>
         contacts (snd (stepPhysics H s p)) =
           fst (afterSweeps (restitution p) (nat (iterations p)) (detected H s p) (warmStarted H s p)) \<and>
         (\<forall>k < nat (iterations p).
            length (sweepLambdas (restitution p)
              (fst (afterSweeps (restitution p) k (detected H s p) (warmStarted H s p)))
              (snd (afterSweeps (restitution p) k (detected H s p) (warmStarted H s p)))) =
              length (detected H s p) \<and>
            solverErrors (snd (stepPhysics H s p)) ! k =
              maxAbs (sweepLambdas (restitution p)
                (fst (afterSweeps (restitution p) k (detected H s p) (warmStarted H s p)))
                (snd (afterSweeps (restitution p) k (detected H s p) (warmStarted H s p))))) \<and>
         (\<forall>ls. ls \<noteq> [] \<and> NaN \<notin> set ls \<longrightarrow>
            (\<exists>l \<in> set ls. maxAbs ls = Math_abs l) \<and> (\<forall>l \<in> set ls. Math_abs l \<le> maxAbs ls)) \<and>
         (iterations p = 0 \<longrightarrow>
            contacts (snd (stepPhysics H s p)) = detected H s p \<and>
            solverErrors (snd (stepPhysics H s p)) = [])"
proof -
  let ?n = "nat (iterations p)" and ?cs = "detected H s p" and ?h = "warmStarted H s p"
  have sol: "solved H s p =
      (fst (afterSweeps (restitution p) ?n ?cs ?h), snd (afterSweeps (restitution p) ?n ?cs ?h),
       map (sweepError (restitution p) ?cs ?h) [0..<?n])"
    by (simp add: solved_def solve_afterSweeps)
  then have c: "contacts (snd (stepPhysics H s p)) = fst (afterSweeps (restitution p) ?n ?cs ?h)"
    and e: "solverErrors (snd (stepPhysics H s p)) = map (sweepError (restitution p) ?cs ?h) [0..<?n]"
    by (simp_all add: stepPhysics_def)
  have "int (length (solverErrors (snd (stepPhysics H s p)))) = iterations p"
    using assms by (simp add: e)
  moreover have "solverErrors (snd (stepPhysics H s p)) ! k = sweepError (restitution p) ?cs ?h k"
    if "k < ?n" for k
    using that by (simp add: e)
  moreover have "length (sweepLambdas (restitution p)
      (fst (afterSweeps (restitution p) k ?cs ?h)) (snd (afterSweeps (restitution p) k ?cs ?h))) = length ?cs" for k
    by (simp add: length_sweepLambdas afterSweeps_length)
  moreover have "iterations p = 0 \<Longrightarrow>
      contacts (snd (stepPhysics H s p)) = ?cs \<and> solverErrors (snd (stepPhysics H s p)) = []"
    by (simp add: c e afterSweeps_0)
  ultimately show ?thesis
    using c maxAbs_is_max by (simp add: sweepError_def)
qed

text \<open>
  Witness for C6: the two balls with one sweep (the values of \<^verbatim>\<open>lambda\<close> are
  \<open>- 17 \<pi> / 20\<close> and \<open>\<pi> / 5\<close>, the entry is \<open>17 \<pi> / 20\<close>) and with no sweep.
\<close>

theorem solver_sweeps_witness:
  "0 \<le> iterations (tick (Fin 0) 1 (Fin 0) False) \<and>
   solverErrors (snd (stepPhysics (world [leftBall, rightBall]) freshState (tick (Fin 0) 1 (Fin 0) False))) =
     [Fin (pi * 17 / 20)] \<and>
   Math_abs (Fin (pi / 5)) \<le> Fin (pi * 17 / 20) \<and>
   contacts (snd (stepPhysics (world [leftBall, rightBall]) freshState (tick (Fin 0) 0 (Fin 0) False))) =
     detected (world [leftBall, rightBall]) freshState (tick (Fin 0) 0 (Fin 0) False) \<and>
   solverErrors (snd (stepPhysics (world [leftBall, rightBall]) freshState (tick (Fin 0) 0 (Fin 0) False))) = []"
proof -
  let ?W = "world [leftBall, rightBall]"
  let ?P = "tick (Fin 0) 1 (Fin 0) False" and ?Z = "tick (Fin 0) 0 (Fin 0) False"
  let ?ls = "[Fin (- (pi * 17 / 20)), Fin (pi / 5)]"
  have p: "0 \<le> iterations ?P" "0 \<le> iterations ?Z" "iterations ?Z = 0" "nat (iterations ?P) = 1"
    "restitution ?P = Fin 0" "iterations ?P = 1"
    by (simp_all add: tick_def)
  note one = solver_sweeps[OF p(1), of ?W freshState]
  note zero = solver_sweeps[OF p(2), of ?W freshState]
  have m: "maxAbs ?ls = Fin (pi * 17 / 20)"
    by (simp add: maxAbs_def Math_max_def)
  from one have "length (solverErrors (snd (stepPhysics ?W freshState ?P))) = 1"
    "solverErrors (snd (stepPhysics ?W freshState ?P)) ! 0 = maxAbs ?ls"
    by (simp_all add: p afterSweeps_0 twoBalls_lambdas)
  then have e: "solverErrors (snd (stepPhysics ?W freshState ?P)) = [Fin (pi * 17 / 20)]"
    by (cases "solverErrors (snd (stepPhysics ?W freshState ?P))") (simp_all add: m)
  from one have "\<forall>l \<in> set ?ls. Math_abs l \<le> maxAbs ?ls"
    by (elim conjE allE[of _ ?ls]) simp
  then have a: "Math_abs (Fin (pi / 5)) \<le> Fin (pi * 17 / 20)"
    by (simp only: m) simp
  from zero p(3) have z:
    "contacts (snd (stepPhysics ?W freshState ?Z)) = detected ?W freshState ?Z"
    "solverErrors (snd (stepPhysics ?W freshState ?Z)) = []"
    by blast+
  show ?thesis
    by (intro conjI p(1) e a z)
qed

subsection \<open>Integration and the clamp\<close>

lemma fold_integrateBody_other: "r \<notin> set bs \<Longrightarrow> fold integrateBody bs h r = h r"
  by (induction bs arbitrary: h) (auto simp: integrateBody_def)

lemma fold_integrateBody_once:
  "count_list bs r = 1 \<Longrightarrow> fold integrateBody bs h r = integrate (h r)"
proof (induction bs arbitrary: h)
  case Nil
  then show ?case by simp
next
  case (Cons b bs)
  show ?case
  proof (cases "b = r")
    case True
    with Cons.prems have "r \<notin> set bs"
      by (simp add: count_list_0_iff)
    with True show ?thesis
      by (simp add: fold_integrateBody_other) (simp add: integrateBody_def)
  next
    case False
    with Cons.prems have "count_list bs r = 1" by simp
    from Cons.IH[OF this] False show ?thesis
      by (simp add: integrateBody_def)
  qed
qed

lemma integrate_left_bounce:
  assumes "\<not> isStatic b" and "invMass b \<noteq> Fin 0"
    and "x (pos b) - radius b < Fin 0" and "x (vel b) < Fin 0"
    and "radius b + radius b \<le> widthM"
  shows "x (pos (integrate b)) = radius b \<and>
         x (vel (integrate b)) = x (vel b) * Fin (- (1 / 2)) \<and>
         Fin 0 < x (vel (integrate b))"
proof -
  let ?b1 = "b\<lparr>trail := recordTrail b, pos := vAdd (pos b) (vScale (vel b) TIMESTEP)\<rparr>"
  have l: "x (pos ?b1) - radius ?b1 < Fin 0"
    using assms(3,4)
    by (cases "x (pos b)"; cases "x (vel b)"; cases "radius b")
       (auto simp: vAdd_def vScale_def TIMESTEP_def minus_jsnum_def)
  have r: "\<not> widthM < radius b + radius b"
    using assms(5)
    by (cases "radius b") (auto simp: widthM_def CANVAS_WIDTH_def PIXELS_PER_METER_def)
  have v: "Fin 0 < x (vel b) * Fin (- (1 / 2))"
    using assms(4) by (cases "x (vel b)") auto
  have 1: "x (pos (clampLeft ?b1)) = radius b" "x (vel (clampLeft ?b1)) = x (vel b) * Fin (- (1 / 2))"
    "radius (clampLeft ?b1) = radius b"
    using l by (simp_all add: clampLeft_def)
  have 2: "x (pos (clampRight (clampLeft ?b1))) = radius b"
    "x (vel (clampRight (clampLeft ?b1))) = x (vel b) * Fin (- (1 / 2))"
    using 1 r by (simp_all add: clampRight_def)
  have 3: "x (pos (clampBottom (clampTop c))) = x (pos c)" "x (vel (clampBottom (clampTop c))) = x (vel c)" for c
    by (simp_all add: clampTop_def clampBottom_def)
  have "integrate b = clampBottom (clampTop (clampRight (clampLeft ?b1)))"
    using assms(1,2) by (simp add: integrate_def strictEq_def)
  with 2 3 v show ?thesis
    by simp
qed

subsection \<open>A body that no other body pushes\<close>

text \<open>An impulse along \<open>y\<close>, and the zero impulse of the left-wall contact, leave \<^verbatim>\<open>vel.x\<close>
  as it is; a \<^verbatim>\<open>vel.y\<close> that is not finite stays so.\<close>

lemma notFin_minus: "\<not> isFin a \<Longrightarrow> \<not> isFin (a - b)"
  by (cases a; cases b) (auto simp: minus_jsnum_def)

lemma notFin_plus: "\<not> isFin a \<Longrightarrow> \<not> isFin (a + b)"
  by (cases a; cases b) auto

lemma applyImpulse_notFin:
  "\<not> isFin (y (vel (h r))) \<Longrightarrow> \<not> isFin (y (vel (applyImpulse c i h r)))"
  using applyImpulse_at[of c i h r]
  by (auto simp: subVel_def addVel_def vSub_def vAdd_def notFin_minus notFin_plus)

lemma applyImpulse_invMass: "invMass (applyImpulse c i h r) = invMass (h r)"
  using applyImpulse_at[of c i h r]
  by (auto simp: subVel_def addVel_def)

lemma applyImpulse_away: "awayFrom r c \<Longrightarrow> applyImpulse c i h r = h r"
  by (auto simp: applyImpulse_def awayFrom_def Let_def split: option.splits)

lemma applyImpulse_wall:
  "bodyA c = r \<Longrightarrow> bodyB c = None \<Longrightarrow> applyImpulse c i h r = subVel i (h r)"
  by (simp add: applyImpulse_def Let_def subVel_def)

lemma impulse_keepsX:
  assumes "unpushing r c" and "leftWallOf r c \<Longrightarrow> d = Fin 0"
    and "keepsX r (Fin i) vx h" and "0 < i"
  shows "keepsX r (Fin i) vx (applyImpulse c (vScale (normal c) d) h)"
proof (cases "isFin (y (vel (h r)))")
  case False
  then show ?thesis
    using assms(3) by (simp add: keepsX_def applyImpulse_notFin applyImpulse_invMass)
next
  case True
  with assms(3) have v: "x (vel (h r)) = vx" and m: "invMass (h r) = Fin i"
    by (simp_all add: keepsX_def)
  from assms(1) consider "awayFrom r c" | "leftWallOf r c" | "floorOrCeilingOf r c"
    by (auto simp: unpushing_def)
  then show ?thesis
  proof cases
    case 1
    with assms(3) show ?thesis by (simp add: applyImpulse_away keepsX_def)
  next
    case 2
    then have "applyImpulse c (vScale (normal c) d) h r = subVel (vScale (normal c) (Fin 0)) (h r)"
      using assms(2) by (simp add: applyImpulse_wall leftWallOf_def)
    then show ?thesis
      using 2 v m True
      by (cases vx; cases "y (vel (h r))")
         (auto simp: keepsX_def subVel_def leftWallOf_def vScale_def vSub_def minus_jsnum_def)
  next
    case 3
    then have "applyImpulse c (vScale (normal c) d) h r = subVel (vScale (normal c) d) (h r)"
      by (simp add: applyImpulse_wall floorOrCeilingOf_def)
    then show ?thesis
      using 3 v m True assms(4)
      by (cases vx; cases "y (vel (h r))"; cases d)
         (auto simp: keepsX_def subVel_def floorOrCeilingOf_def vScale_def vSub_def minus_jsnum_def)
  qed
qed

lemma left_wall_lambda:
  assumes "leftWallOf r c" and "impulseAcc c = Fin 0"
    and "isFin (y (vel (h r)))" and "x (vel (h r)) < Fin 0"
  shows "Math_max (Fin 0) (impulseAcc c + contactLambda rest c h) = Fin 0"
  using assms
  by (cases "x (vel (h r))"; cases "y (vel (h r))"; cases "effectiveMass c"; cases "bias c")
     (auto simp: leftWallOf_def contactLambda_def Let_def vSub_def vDot_def minus_jsnum_def
        Math_max_def mult_less_0_iff add_pos_nonneg)

lemma solveContact_keepsX:
  assumes "unpushing r c" and "keepsX r (Fin i) vx h" and "0 < i" and "vx < Fin 0"
    and "isFin (y (vel (h r))) \<Longrightarrow> leftWallOf r c \<Longrightarrow> impulseAcc c = Fin 0"
    and "solveContact rest c h = (c', h', l)"
  shows "keepsX r (Fin i) vx h' \<and> unpushing r c' \<and> leftWallOf r c' = leftWallOf r c \<and>
         (isFin (y (vel (h' r))) \<longrightarrow> leftWallOf r c' \<longrightarrow> impulseAcc c' = Fin 0)"
proof -
  from assms(6) have c': "c' = c\<lparr>impulseAcc := Math_max (Fin 0) (impulseAcc c + contactLambda rest c h)\<rparr>"
    and h': "h' = applyImpulse c (vScale (normal c) (impulseAcc c' - impulseAcc c)) h"
    by (auto simp: solveContact_def Let_def)
  have s: "unpushing r c' = unpushing r c" "leftWallOf r c' = leftWallOf r c"
    by (simp_all add: c' unpushing_def awayFrom_def leftWallOf_def floorOrCeilingOf_def)
  show ?thesis
  proof (cases "isFin (y (vel (h r)))")
    case False
    then have "\<not> isFin (y (vel (h' r)))"
      by (simp add: h' applyImpulse_notFin)
    with assms(1,2) s show ?thesis
      by (simp add: keepsX_def h' applyImpulse_invMass)
  next
    case True
    with assms(2) have v: "x (vel (h r)) = vx"
      by (simp add: keepsX_def)
    have z: "impulseAcc c' = Fin 0 \<and> impulseAcc c = Fin 0" if "leftWallOf r c"
      using left_wall_lambda[of r c h rest, OF that assms(5)[OF True that] True] assms(5)[OF True that] v assms(4)
      by (simp add: c')
    then have "leftWallOf r c \<Longrightarrow> impulseAcc c' - impulseAcc c = Fin 0"
      by (simp add: minus_jsnum_def)
    from impulse_keepsX[OF assms(1) this assms(2,3)] have "keepsX r (Fin i) vx h'"
      by (simp add: h')
    with s assms(1) z show ?thesis by simp
  qed
qed


lemma sweep_notFin:
  "\<not> isFin (y (vel (h r))) \<Longrightarrow> \<not> isFin (y (vel (fst (snd (sweep rest cs h m)) r)))"
  by (intro sweep_preserves[where P = "\<lambda>h. \<not> isFin (y (vel (h r)))"] applyImpulse_notFin)

lemma sweep_keepsX:
  assumes "0 < i" and "vx < Fin 0"
  shows "\<forall>c \<in> set cs. unpushing r c \<Longrightarrow> keepsX r (Fin i) vx h \<Longrightarrow>
     (isFin (y (vel (h r))) \<Longrightarrow> \<forall>c \<in> set cs. leftWallOf r c \<longrightarrow> impulseAcc c = Fin 0) \<Longrightarrow>
     sweep rest cs h m = (cs', h', m') \<Longrightarrow>
     keepsX r (Fin i) vx h' \<and> (\<forall>c \<in> set cs'. unpushing r c) \<and>
     (isFin (y (vel (h' r))) \<longrightarrow> (\<forall>c \<in> set cs'. leftWallOf r c \<longrightarrow> impulseAcc c = Fin 0))"
proof (induction cs arbitrary: h m cs' h' m')
  case Nil
  then show ?case by auto
next
  case (Cons c cs)
  obtain c1 h1 l where sc: "solveContact rest c h = (c1, h1, l)"
    by (cases "solveContact rest c h") auto
  obtain cs2 h2 m2 where sw: "sweep rest cs h1 (Math_max m (Math_abs l)) = (cs2, h2, m2)"
    by (cases "sweep rest cs h1 (Math_max m (Math_abs l))") auto
  from Cons.prems(4) have r: "cs' = c1 # cs2" "h' = h2"
    by (simp_all add: sc sw)
  have earlier: "isFin (y (vel (h r)))" if "isFin (y (vel (h1 r)))"
  proof (rule ccontr)
    assume "\<not> isFin (y (vel (h r)))"
    then have "\<not> isFin (y (vel (applyImpulse c (vScale (normal c) (impulseAcc c1 - impulseAcc c)) h r)))"
      by (rule applyImpulse_notFin)
    moreover have "h1 = applyImpulse c (vScale (normal c) (impulseAcc c1 - impulseAcc c)) h"
      using sc by (auto simp: solveContact_def Let_def)
    ultimately show False using that by simp
  qed
  have earlier2: "isFin (y (vel (h1 r)))" if "isFin (y (vel (h2 r)))"
    using that sweep_notFin[of h1 r rest cs "Math_max m (Math_abs l)"] by (auto simp: sw)
  have c: "unpushing r c" and cs: "\<forall>c \<in> set cs. unpushing r c"
    using Cons.prems(1) by simp_all
  have "isFin (y (vel (h r))) \<Longrightarrow> leftWallOf r c \<Longrightarrow> impulseAcc c = Fin 0"
    using Cons.prems(3) by simp
  from solveContact_keepsX[OF c Cons.prems(2) assms this sc]
  have k1: "keepsX r (Fin i) vx h1" and u1: "unpushing r c1"
    and z1: "isFin (y (vel (h1 r))) \<Longrightarrow> leftWallOf r c1 \<Longrightarrow> impulseAcc c1 = Fin 0"
    by simp_all
  have "isFin (y (vel (h1 r))) \<Longrightarrow> \<forall>c \<in> set cs. leftWallOf r c \<longrightarrow> impulseAcc c = Fin 0"
    using Cons.prems(3) earlier by simp
  from Cons.IH[OF cs k1 this sw]
  have k2: "keepsX r (Fin i) vx h2" and u2: "\<forall>c \<in> set cs2. unpushing r c"
    and z2: "isFin (y (vel (h2 r))) \<longrightarrow> (\<forall>c \<in> set cs2. leftWallOf r c \<longrightarrow> impulseAcc c = Fin 0)"
    by simp_all
  show ?case
    using k2 u1 u2 z1 z2 earlier2 by (auto simp: r)
qed

lemma solve_keepsX:
  assumes "0 < i" and "vx < Fin 0"
  shows "\<forall>c \<in> set cs. unpushing r c \<Longrightarrow> keepsX r (Fin i) vx h \<Longrightarrow>
     (isFin (y (vel (h r))) \<Longrightarrow> \<forall>c \<in> set cs. leftWallOf r c \<longrightarrow> impulseAcc c = Fin 0) \<Longrightarrow>
     keepsX r (Fin i) vx (fst (snd (solve rest n cs h errs)))"
proof (induction n arbitrary: cs h errs)
  case 0
  then show ?case by simp
next
  case (Suc n)
  obtain cs1 h1 m where sw: "sweep rest cs h (Fin 0) = (cs1, h1, m)"
    by (cases "sweep rest cs h (Fin 0)") auto
  from sweep_keepsX[OF assms Suc.prems sw]
  have "\<forall>c \<in> set cs1. unpushing r c" "keepsX r (Fin i) vx h1"
    "isFin (y (vel (h1 r))) \<Longrightarrow> \<forall>c \<in> set cs1. leftWallOf r c \<longrightarrow> impulseAcc c = Fin 0"
    by simp_all
  from Suc.IH[OF this] show ?case by (simp add: sw)
qed

lemma warmStartPhase_keepsX:
  assumes "0 < i"
  shows "\<forall>c \<in> set cs. unpushing r c \<and> (leftWallOf r c \<longrightarrow> impulseAcc c = Fin 0) \<Longrightarrow>
     keepsX r (Fin i) vx h \<Longrightarrow> keepsX r (Fin i) vx (warmStartPhase w cs h)"
proof -
  have "\<forall>c \<in> set cs. unpushing r c \<and> (leftWallOf r c \<longrightarrow> impulseAcc c = Fin 0) \<Longrightarrow>
     keepsX r (Fin i) vx h \<Longrightarrow> keepsX r (Fin i) vx (fold warmStart cs h)"
  proof (induction cs arbitrary: h)
    case Nil
    then show ?case by simp
  next
    case (Cons c cs)
    have "keepsX r (Fin i) vx (warmStart c h)"
      unfolding warmStart_def
      using Cons.prems by (intro impulse_keepsX assms) simp_all
    with Cons show ?case by simp
  qed
  then show "\<forall>c \<in> set cs. unpushing r c \<and> (leftWallOf r c \<longrightarrow> impulseAcc c = Fin 0) \<Longrightarrow>
     keepsX r (Fin i) vx h \<Longrightarrow> ?thesis"
    by (simp add: warmStartPhase_def)
qed

lemma afterGravity_x: "x (vel (afterGravity H s p r)) = x (vel (objs H r))"
  unfolding afterGravity_def
  by (intro fold_preserves[where P = "\<lambda>h. x (vel (h r)) = x (vel (objs H r))"])
     (auto simp: applyGravity_def)

lemma wallContacts_unpushing:
  assumes "invMass (h r) = Fin i" and "0 < i"
    and "x (pos (h r)) - radius (h r) < Fin 0" and "radius (h r) + radius (h r) \<le> widthM"
    and "c \<in> set (wallContacts h rest b)"
  shows "unpushing r c \<and> impulseAcc c = Fin 0"
proof (cases "b = r")
  case False
  with assms(5) show ?thesis
    by (auto simp: wallContacts_def createWallContact_def unpushing_def awayFrom_def Let_def
        split: if_splits)
next
  case True
  have nr: "\<not> widthM < x (pos (h r)) + radius (h r)"
    using assms(3,4)
    by (cases "x (pos (h r))"; cases "radius (h r)")
       (auto simp: widthM_def CANVAS_WIDTH_def PIXELS_PER_METER_def minus_jsnum_def)
  have bi: "Fin 0 \<le> (- BAUMGARTE) * (Math_min (Fin 0) (a + SLOP) / TIMESTEP)" if "a < Fin 0" for a
    using that
    by (cases a) (auto simp: BAUMGARTE_def SLOP_def TIMESTEP_def Math_min_def mult_le_0_iff)
  have pen: "x (pos (h r)) - radius (h r) - Fin 0 < Fin 0"
    using assms(3) by (cases "x (pos (h r)) - radius (h r)") (auto simp: minus_jsnum_def)
  from assms(5) True nr show ?thesis
    using assms(1,2) bi[OF pen]
    by (auto simp: wallContacts_def createWallContact_def unpushing_def leftWallOf_def
        floorOrCeilingOf_def Let_def split: if_splits)
qed

lemma pairLoop_bodyB: "c \<in> set (pairLoop h prev w bs) \<Longrightarrow> bodyB c \<noteq> None"
  by (induction bs) (auto simp: pairContact_def Let_def split: if_splits)


lemma detected_unpushing:
  assumes "invMass (objs H r) = Fin i" and "0 < i"
    and "x (pos (objs H r)) - radius (objs H r) < Fin 0"
    and "radius (objs H r) + radius (objs H r) \<le> widthM"
    and "\<forall>c \<in> set (detected H s p). bodyB c = None \<or> (bodyA c \<noteq> r \<and> bodyB c \<noteq> Some r)"
    and "c \<in> set (detected H s p)"
  shows "unpushing r c \<and> (leftWallOf r c \<longrightarrow> impulseAcc c = Fin 0)"
proof -
  let ?g = "afterGravity H s p"
  have u: "untouched (objs H r) (?g r)"
    by (rule afterGravity_untouched)
  then have g: "invMass (?g r) = Fin i" "x (pos (?g r)) - radius (?g r) < Fin 0"
    "radius (?g r) + radius (?g r) \<le> widthM"
    using assms(1,3,4) by (simp_all add: untouched_def sameShape_def)
  from assms(6) consider b where "c \<in> set (wallContacts ?g (restitution p) b)"
    | "c \<in> set (pairLoop ?g (contacts s) (warmStarting p) (arrays H (bodies s)))"
    by (auto simp: detected_def detect_def)
  then show ?thesis
  proof cases
    case 1
    from wallContacts_unpushing[OF g(1) assms(2) g(2,3) 1] show ?thesis by simp
  next
    case 2
    then have "bodyB c \<noteq> None" by (rule pairLoop_bodyB)
    with assms(5,6) have "awayFrom r c" by (auto simp: awayFrom_def)
    then show ?thesis by (auto simp: unpushing_def awayFrom_def leftWallOf_def)
  qed
qed

lemma solved_keepsX:
  assumes "invMass (objs H r) = Fin i" and "0 < i"
    and "x (pos (objs H r)) - radius (objs H r) < Fin 0"
    and "radius (objs H r) + radius (objs H r) \<le> widthM"
    and "x (vel (objs H r)) < Fin 0"
    and "\<forall>c \<in> set (detected H s p). bodyB c = None \<or> (bodyA c \<noteq> r \<and> bodyB c \<noteq> Some r)"
  shows "keepsX r (Fin i) (x (vel (objs H r))) (fst (snd (solved H s p)))"
proof -
  let ?vx = "x (vel (objs H r))"
  have d: "\<forall>c \<in> set (detected H s p). unpushing r c \<and> (leftWallOf r c \<longrightarrow> impulseAcc c = Fin 0)"
    using detected_unpushing[OF assms(1-4,6)] by blast
  have "untouched (objs H r) (afterGravity H s p r)"
    by (rule afterGravity_untouched)
  then have "keepsX r (Fin i) ?vx (afterGravity H s p)"
    using assms(1) by (simp add: keepsX_def afterGravity_x untouched_def sameShape_def)
  then have w: "keepsX r (Fin i) ?vx (warmStarted H s p)"
    unfolding warmStarted_def using d by (intro warmStartPhase_keepsX assms(2)) simp_all
  show ?thesis
    unfolding solved_def using d w by (intro solve_keepsX assms(2,5)) simp_all
qed

lemma left_bounce_of_unpushed:
  assumes "count_list (arrays H (bodies s)) r = 1"
    and "\<not> isStatic (objs H r)"
    and "isFin (invMass (objs H r))" and "Fin 0 < invMass (objs H r)"
    and "radius (objs H r) + radius (objs H r) \<le> widthM"
    and "x (pos (objs H r)) - radius (objs H r) < Fin 0"
    and "x (vel (objs H r)) < Fin 0"
    and "\<forall>c \<in> set (detected H s p). bodyB c = None \<or> (bodyA c \<noteq> r \<and> bodyB c \<noteq> Some r)"
    and "isFin (y (vel (fst (snd (solved H s p)) r)))"
  shows "x (pos (objs (fst (stepPhysics H s p)) r)) = radius (objs H r) \<and>
         x (vel (objs (fst (stepPhysics H s p)) r)) = x (vel (objs H r)) * Fin (- (1 / 2))"
proof -
  let ?b = "fst (snd (solved H s p)) r"
  from assms(3,4) obtain i where i: "invMass (objs H r) = Fin i" "0 < i"
    by (cases "invMass (objs H r)") auto
  from solved_keepsX[OF i assms(6,5,7,8)] assms(9) have v: "x (vel ?b) = x (vel (objs H r))"
    by (simp add: keepsX_def)
  have u: "untouched (objs H r) ?b"
    by (rule solved_untouched)
  have eq: "objs (fst (stepPhysics H s p)) r = integrate ?b"
    using assms(1) by (simp add: objs_stepPhysics fold_integrateBody_once)
  have f: "\<not> isStatic ?b" "invMass ?b \<noteq> Fin 0" "x (pos ?b) - radius ?b < Fin 0"
    "x (vel ?b) < Fin 0" "radius ?b + radius ?b \<le> widthM" and rd: "radius ?b = radius (objs H r)"
    using u assms(2,5,6,7) i v by (simp_all add: untouched_def sameShape_def)
  from integrate_left_bounce[OF f] show ?thesis
    unfolding eq rd v by simp
qed

text \<open>
  C7 (as amended). Take a body that is listed once in the array of bodies, is not static, has
  a finite positive inverse mass and a radius of at most half the arena width, and enters the
  tick with \<^verbatim>\<open>pos.x - radius < 0\<close> and a negative \<^verbatim>\<open>vel.x\<close>. If no contact between two
  bodies of this tick involves it, and its \<^verbatim>\<open>vel.y\<close> is still finite when the solver has
  finished, then after \<open>stepPhysics\<close> its \<^verbatim>\<open>pos.x\<close> is its radius and its \<^verbatim>\<open>vel.x\<close> is
  \<open>- 1/2\<close> times the \<^verbatim>\<open>vel.x\<close> it entered the tick with. Gravity writes \<^verbatim>\<open>vel.y\<close> only,
  the contact with the left wall asks for a negative impulse, which is clamped to zero, and a
  contact with the floor or the ceiling pushes along \<open>y\<close>.
\<close>

theorem unpushed_left_bounce:
  assumes "count_list (arrays H (bodies s)) r = 1"
    and "\<not> isStatic (objs H r)"
    and "isFin (invMass (objs H r))" and "Fin 0 < invMass (objs H r)"
    and "radius (objs H r) + radius (objs H r) \<le> widthM"
    and "x (pos (objs H r)) - radius (objs H r) < Fin 0"
    and "x (vel (objs H r)) < Fin 0"
    and "\<forall>c \<in> set (detected H s p). bodyB c = None \<or> (bodyA c \<noteq> r \<and> bodyB c \<noteq> Some r)"
    and "isFin (y (vel (fst (snd (solved H s p)) r)))"
  shows "x (pos (objs (fst (stepPhysics H s p)) r)) = radius (objs H r) \<and>
         x (vel (objs (fst (stepPhysics H s p)) r)) = x (vel (objs H r)) * Fin (- (1 / 2))"
  using assms by (rule left_bounce_of_unpushed)

text \<open>
  Witness for C7 (as amended): the left ball next to two other balls that overlap each
  other, with gravity, two sweeps and warm starting. It enters with \<^verbatim>\<open>vel.x = -1\<close> and ends
  at \<^verbatim>\<open>pos.x = 1/2\<close> with \<^verbatim>\<open>vel.x = 1/2\<close>.
\<close>

theorem unpushed_left_bounce_witness:
  "count_list (arrays (world [leftBall, midBall, nearBall]) (bodies freshState)) 0 = 1 \<and>
   \<not> isStatic (objs (world [leftBall, midBall, nearBall]) 0) \<and>
   invMass (objs (world [leftBall, midBall, nearBall]) 0) = Fin (4 / pi) \<and>
   radius (objs (world [leftBall, midBall, nearBall]) 0) = Fin (1 / 2) \<and>
   x (pos (objs (world [leftBall, midBall, nearBall]) 0)) = Fin (1 / 4) \<and>
   x (vel (objs (world [leftBall, midBall, nearBall]) 0)) = Fin (- 1) \<and>
   map bodyA (detected (world [leftBall, midBall, nearBall]) freshState (tick (Fin 10) 2 (Fin (4 / 5)) True)) = [0, 1] \<and>
   map bodyB (detected (world [leftBall, midBall, nearBall]) freshState (tick (Fin 10) 2 (Fin (4 / 5)) True)) = [None, Some 2] \<and>
   y (vel (fst (snd (solved (world [leftBall, midBall, nearBall]) freshState (tick (Fin 10) 2 (Fin (4 / 5)) True))) 0)) = Fin (1 / 6) \<and>
   x (pos (objs (fst (stepPhysics (world [leftBall, midBall, nearBall]) freshState (tick (Fin 10) 2 (Fin (4 / 5)) True))) 0)) = Fin (1 / 2) \<and>
   x (vel (objs (fst (stepPhysics (world [leftBall, midBall, nearBall]) freshState (tick (Fin 10) 2 (Fin (4 / 5)) True))) 0)) = Fin (1 / 2)"
proof -
  let ?W = "world [leftBall, midBall, nearBall]" and ?P = "tick (Fin 10) 2 (Fin (4 / 5)) True"
  have b: "count_list (arrays ?W (bodies freshState)) 0 = 1" "\<not> isStatic (objs ?W 0)"
    "invMass (objs ?W 0) = Fin (4 / pi)" "radius (objs ?W 0) = Fin (1 / 2)"
    "x (pos (objs ?W 0)) = Fin (1 / 4)" "x (vel (objs ?W 0)) = Fin (- 1)"
    by (simp_all add: world_defs leftBall_def)
  have h: "isFin (invMass (objs ?W 0))" "Fin 0 < invMass (objs ?W 0)"
    "radius (objs ?W 0) + radius (objs ?W 0) \<le> widthM"
    "x (pos (objs ?W 0)) - radius (objs ?W 0) < Fin 0" "x (vel (objs ?W 0)) < Fin 0"
    by (simp_all add: b widthM_def CANVAS_WIDTH_def PIXELS_PER_METER_def minus_jsnum_def)
  have d: "map bodyA (detected ?W freshState ?P) = [0, 1]"
    "map bodyB (detected ?W freshState ?P) = [None, Some 2]"
    by (simp_all add: threeBalls_detected)
  have c: "\<forall>c \<in> set (detected ?W freshState ?P). bodyB c = None \<or> (bodyA c \<noteq> 0 \<and> bodyB c \<noteq> Some 0)"
    by (simp add: threeBalls_detected)
  have v: "y (vel (fst (snd (solved ?W freshState ?P)) 0)) = Fin (1 / 6)"
    by (simp add: threeBalls_solved_vel)
  then have f: "isFin (y (vel (fst (snd (solved ?W freshState ?P)) 0)))"
    by simp
  from unpushed_left_bounce[OF b(1,2) h c f] have
    "x (pos (objs (fst (stepPhysics ?W freshState ?P)) 0)) = Fin (1 / 2)"
    "x (vel (objs (fst (stepPhysics ?W freshState ?P)) 0)) = Fin (1 / 2)"
    by (simp_all add: b)
  with b d v show ?thesis
    by blast
qed

text \<open>Without a finite \<^verbatim>\<open>vel.y\<close> the contact with the left wall computes NaN: the left ball
  alone, under an infinite gravity.\<close>

lemma infinite_gravity_example:
  "x (vel (objs (world [leftBall]) 0)) = Fin (- 1) \<and>
   y (vel (fst (snd (solved (world [leftBall]) freshState (tick PInf 1 (Fin 0) False))) 0)) = NaN \<and>
   x (vel (objs (fst (stepPhysics (world [leftBall]) freshState (tick PInf 1 (Fin 0) False))) 0)) = NaN"
  by (simp add: step_defs world_defs leftBall_def Let_def)

text \<open>
  Counterexample to C7 as stated: the left ball enters the tick overlapping the left wall
  with \<^verbatim>\<open>vel.x = -1\<close>; the solver pushes it to \<open>- 9/5\<close> through its contact with the right
  ball, so the clamp leaves \<open>9/10\<close>, not \<open>1/2\<close>.
\<close>

theorem pushed_ball_counterexample:
  "\<not> isStatic (objs (world [leftBall, rightBall]) 0) \<and>
   x (pos (objs (world [leftBall, rightBall]) 0)) - radius (objs (world [leftBall, rightBall]) 0) < Fin 0 \<and>
   x (vel (objs (world [leftBall, rightBall]) 0)) = Fin (- 1) \<and>
   x (vel (objs (fst (stepPhysics (world [leftBall, rightBall]) freshState (tick (Fin 0) 1 (Fin 0) False))) 0)) = Fin (9 / 10) \<and>
   Fin (9 / 10) \<noteq> Fin (- 1) * Fin (- (1 / 2))"
  by (simp add: step_defs world_defs leftBall_def rightBall_def Let_def sqrt_9_16 sqrt_81_25 sqrt_441_25)

section \<open>Ticks of finite worlds\<close>

text \<open>
  What a tick does in a world whose numbers are finite and in which no body of zero inverse
  mass overlaps a wall: every number stays finite, and the properties that the infinite
  effective mass of such a wall contact breaks hold.
\<close>

subsection \<open>Finite numbers\<close>

lemma isFin_iff: "isFin a \<longleftrightarrow> (\<exists>r. a = Fin r)"
  by (cases a) auto

lemma isFin_arith:
  "isFin a \<Longrightarrow> isFin b \<Longrightarrow> isFin (a + b)"
  "isFin a \<Longrightarrow> isFin b \<Longrightarrow> isFin (a - b)"
  "isFin a \<Longrightarrow> isFin b \<Longrightarrow> isFin (a * b)"
  "isFin a \<Longrightarrow> isFin (- a)"
  "isFin a \<Longrightarrow> isFin b \<Longrightarrow> isFin (Math_max a b)"
  "isFin a \<Longrightarrow> isFin b \<Longrightarrow> isFin (Math_min a b)"
  "isFin a \<Longrightarrow> isFin (Math_abs a)"
  by (auto simp: isFin_iff minus_jsnum_def Math_max_def Math_min_def)

lemma isFin_div: "isFin a \<Longrightarrow> isFin b \<Longrightarrow> b \<noteq> Fin 0 \<Longrightarrow> isFin (a / b)"
  by (auto simp: isFin_iff)

lemma isFin_consts:
  "isFin TIMESTEP" "isFin SLOP" "isFin BAUMGARTE" "isFin widthM" "isFin heightM" "TIMESTEP \<noteq> Fin 0"
  by (simp_all add: TIMESTEP_def SLOP_def BAUMGARTE_def widthM_def heightM_def CANVAS_WIDTH_def
      CANVAS_HEIGHT_def PIXELS_PER_METER_def)

lemma finV_ops:
  "finV a \<Longrightarrow> finV b \<Longrightarrow> finV (vAdd a b)"
  "finV a \<Longrightarrow> finV b \<Longrightarrow> finV (vSub a b)"
  "finV a \<Longrightarrow> isFin k \<Longrightarrow> finV (vScale a k)"
  "finV a \<Longrightarrow> finV b \<Longrightarrow> isFin (vDot a b)"
  by (simp_all add: finV_def vAdd_def vSub_def vScale_def vDot_def isFin_arith)

lemma isFin_vLen: "finV a \<Longrightarrow> isFin (vLen a)"
  by (auto simp: finV_def vLen_def isFin_iff not_sum_squares_lt_zero)

lemma finV_vNorm: "finV a \<Longrightarrow> finV (vNorm a)"
proof -
  assume a: "finV a"
  then obtain l where l: "vLen a = Fin l"
    using isFin_vLen[of a] by (auto simp: isFin_iff)
  show "finV (vNorm a)"
  proof (cases "0 < l")
    case True
    then have "isFin (Fin 1 / vLen a)" by (simp add: l)
    with a True show ?thesis
      by (simp add: vNorm_def l finV_ops Let_def)
  next
    case False
    then show ?thesis
      by (simp add: vNorm_def l finV_def Let_def)
  qed
qed

lemma isFin_baumgarte: "isFin pen \<Longrightarrow> isFin ((- BAUMGARTE) * (Math_min (Fin 0) (pen + SLOP) / TIMESTEP))"
  by (intro isFin_arith isFin_div isFin_consts) simp_all

subsection \<open>Finite stores through the phases\<close>

lemma applyGravity_fin: "isFin g \<Longrightarrow> finBody (h r) \<Longrightarrow> finBody (applyGravity g b h r)"
  by (auto simp: applyGravity_def finBody_def finV_def isFin_arith isFin_consts)

lemma subVel_fin: "finV i \<Longrightarrow> finBody b \<Longrightarrow> finBody (subVel i b)"
  by (simp add: subVel_def finBody_def finV_ops)

lemma addVel_fin: "finV i \<Longrightarrow> finBody b \<Longrightarrow> finBody (addVel i b)"
  by (simp add: addVel_def finBody_def finV_ops)

lemma applyImpulse_fin:
  assumes "finV i" and "finBody (h r)"
  shows "finBody (applyImpulse c i h r)"
  using applyImpulse_at[of c i h r] subVel_fin[OF assms] addVel_fin[OF assms(1) subVel_fin[OF assms]]
    addVel_fin[OF assms] assms(2)
  by auto

lemma applyImpulse_finStore: "finV i \<Longrightarrow> finStore R h \<Longrightarrow> finStore R (applyImpulse c i h)"
  by (simp add: finStore_def applyImpulse_fin)

lemma integrate_fin: "finBody b \<Longrightarrow> finBody (integrate b)"
  by (auto simp: integrate_def clampLeft_def clampRight_def clampTop_def clampBottom_def
      finBody_def finV_def vAdd_def vScale_def isFin_arith isFin_consts)

subsection \<open>Finite contacts\<close>

lemma wallContacts_cong:
  "pos (h r) = pos (h0 r) \<Longrightarrow> radius (h r) = radius (h0 r) \<Longrightarrow> invMass (h r) = invMass (h0 r) \<Longrightarrow>
   body_id (h r) = body_id (h0 r) \<Longrightarrow> wallContacts h rest r = wallContacts h0 rest r"
  by (simp add: wallContacts_def createWallContact_def)

lemma createWallContact_fin:
  assumes "r \<in> R" and "finBody (h r)" and "invMass (h r) \<noteq> Fin 0" and "finV n" and "isFin pen"
  shows "finContact R (createWallContact h r n pen rest)"
  using assms
  by (simp add: createWallContact_def finContact_def Let_def finBody_def isFin_div isFin_baumgarte)

lemma createWallContact_mass:
  assumes "isFin (invMass (h r))" and "Fin 0 \<le> invMass (h r)" and "invMass (h r) \<noteq> Fin 0"
  shows "massOK (createWallContact h r n pen rest)"
  using assms by (auto simp: createWallContact_def massOK_def Let_def isFin_iff)

lemma wallContacts_fin:
  assumes "r \<in> R" and "finBody (h r)" and "invMass (h r) = Fin 0 \<longrightarrow> wallContacts h rest r = []"
    and "c \<in> set (wallContacts h rest r)"
  shows "finContact R c"
proof -
  from assms(3,4) have nz: "invMass (h r) \<noteq> Fin 0"
    by auto
  have f: "isFin (x (pos (h r)))" "isFin (y (pos (h r)))" "isFin (radius (h r))"
    using assms(2) by (simp_all add: finBody_def finV_def)
  have n: "finV \<lparr>x = Fin a, y = Fin b\<rparr>" for a b
    by (simp add: finV_def)
  from assms(4) show ?thesis
    by (auto simp: wallContacts_def split: if_splits
        intro!: createWallContact_fin[of r R h, OF assms(1,2) nz] n isFin_arith f isFin_consts)
qed

lemma wallContacts_mass:
  assumes "isFin (invMass (h r))" and "Fin 0 \<le> invMass (h r)"
    and "invMass (h r) = Fin 0 \<longrightarrow> wallContacts h rest r = []"
    and "c \<in> set (wallContacts h rest r)"
  shows "massOK c"
proof -
  from assms(3,4) have nz: "invMass (h r) \<noteq> Fin 0"
    by auto
  from assms(4) show ?thesis
    by (auto simp: wallContacts_def split: if_splits intro!: createWallContact_mass[of h r, OF assms(1,2) nz])
qed

lemma find_fin:
  assumes "\<forall>e \<in> set prev. isFin (impulseAcc e)"
  shows "isFin (case find P prev of Some e \<Rightarrow> impulseAcc e | None \<Rightarrow> Fin 0)"
proof (cases "find P prev")
  case None
  then show ?thesis by simp
next
  case (Some e)
  then have "e \<in> set prev"
    by (auto simp: find_Some_iff)
  with assms Some show ?thesis by simp
qed

lemma pairContact_fin:
  assumes "a \<in> R" and "b \<in> R" and "finBody (h a)" and "finBody (h b)"
    and "\<forall>e \<in> set prev. isFin (impulseAcc e)" and "c \<in> set (pairContact h prev warm a b)"
  shows "finContact R c"
proof -
  have p: "finV (pos (h a))" "finV (pos (h b))" "isFin (radius (h a))" "isFin (radius (h b))"
    "isFin (invMass (h a))" "isFin (invMass (h b))"
    using assms(3,4) by (simp_all add: finBody_def)
  have d: "isFin (vDist (pos (h a)) (pos (h b)))"
    unfolding vDist_def by (intro isFin_vLen finV_ops p)
  have pen: "isFin (vDist (pos (h a)) (pos (h b)) - (radius (h a) + radius (h b)))"
    by (intro isFin_arith d p)
  have n: "finV (vNorm (vSub (pos (h b)) (pos (h a))))"
    by (intro finV_vNorm finV_ops p)
  have k: "isFin (if Fin 0 < invMass (h a) + invMass (h b) then Fin 1 / (invMass (h a) + invMass (h b)) else Fin 0)"
    using p(5,6) by (auto simp: isFin_iff)
  note s = find_fin[OF assms(5)]
  from assms(6) show ?thesis
    using assms(1,2) pen n k s isFin_baumgarte[OF pen]
    by (auto simp: pairContact_def finContact_def Let_def split: if_splits)
qed

lemma pairContact_mass:
  assumes "isFin (invMass (h a))" and "isFin (invMass (h b))"
    and "Fin 0 \<le> invMass (h a)" and "Fin 0 \<le> invMass (h b)"
    and "invMass (h a) = Fin 0 \<longrightarrow> isStatic (h a)" and "invMass (h b) = Fin 0 \<longrightarrow> isStatic (h b)"
    and "c \<in> set (pairContact h prev warm a b)"
  shows "massOK c"
  using assms
  by (auto simp: pairContact_def massOK_def Let_def isFin_iff split: if_splits)

lemma pairLoop_fin:
  assumes "set bs \<subseteq> R" and "finStore R h" and "\<forall>e \<in> set prev. isFin (impulseAcc e)"
    and "c \<in> set (pairLoop h prev warm bs)"
  shows "finContact R c"
  using assms(1,4)
proof (induction bs)
  case Nil
  then show ?case by simp
next
  case (Cons a bs)
  from Cons.prems(2) consider b where "b \<in> set bs" "c \<in> set (pairContact h prev warm a b)"
    | "c \<in> set (pairLoop h prev warm bs)"
    by auto
  then show ?case
  proof cases
    case 1
    with Cons.prems(1) assms(2) show ?thesis
      by (auto simp: finStore_def intro!: pairContact_fin[OF _ _ _ _ assms(3), of a R b h c warm])
  next
    case 2
    with Cons show ?thesis by simp
  qed
qed

lemma pairLoop_mass:
  assumes "\<forall>r \<in> set bs. isFin (invMass (h r)) \<and> Fin 0 \<le> invMass (h r) \<and> (invMass (h r) = Fin 0 \<longrightarrow> isStatic (h r))"
    and "c \<in> set (pairLoop h prev warm bs)"
  shows "massOK c"
  using assms
proof (induction bs)
  case Nil
  then show ?case by simp
next
  case (Cons a bs)
  from Cons.prems(2) consider b where "b \<in> set bs" "c \<in> set (pairContact h prev warm a b)"
    | "c \<in> set (pairLoop h prev warm bs)"
    by auto
  then show ?case
  proof cases
    case 1
    with Cons.prems(1) show ?thesis
      by (auto intro!: pairContact_mass[of h a b c prev warm])
  next
    case 2
    with Cons show ?thesis by simp
  qed
qed

subsection \<open>Finite sweeps\<close>

lemma contactLambda_fin:
  assumes "finStore R h" and "finContact R c" and "isFin rest"
  shows "isFin (contactLambda rest c h)"
proof -
  have a: "finV (vel (h (bodyA c)))"
    using assms(1,2) by (simp add: finStore_def finContact_def finBody_def)
  have z: "finV \<lparr>x = Fin 0, y = Fin 0\<rparr>"
    by (simp add: finV_def)
  have rv: "finV (case bodyB c of Some b \<Rightarrow> vSub (vel (h b)) (vel (h (bodyA c)))
                 | None \<Rightarrow> vSub \<lparr>x = Fin 0, y = Fin 0\<rparr> (vel (h (bodyA c))))"
    using assms(1,2) a z
    by (auto simp: finStore_def finContact_def finBody_def finV_ops split: option.splits)
  have c: "finV (normal c)" "isFin (effectiveMass c)" "isFin (bias c)"
    using assms(2) by (simp_all add: finContact_def)
  show ?thesis
    unfolding contactLambda_def Let_def
    by (intro isFin_arith finV_ops rv c) (auto intro!: isFin_arith finV_ops rv c assms(3))
qed

lemma solveContact_fin:
  assumes "finStore R h" and "finContact R c" and "isFin rest"
  shows "finContact R (fst (solveContact rest c h)) \<and> finStore R (fst (snd (solveContact rest c h))) \<and>
         isFin (snd (snd (solveContact rest c h)))"
proof -
  note l = contactLambda_fin[OF assms]
  have c: "finV (normal c)" "isFin (impulseAcc c)"
    using assms(2) by (simp_all add: finContact_def)
  have n: "isFin (Math_max (Fin 0) (impulseAcc c + contactLambda rest c h))"
    by (intro isFin_arith l c) simp
  have i: "finV (vScale (normal c) (Math_max (Fin 0) (impulseAcc c + contactLambda rest c h) - impulseAcc c))"
    by (intro finV_ops isFin_arith n c)
  show ?thesis
    using assms(2) n l applyImpulse_finStore[OF i assms(1)]
    by (simp add: solveContact_def Let_def finContact_def)
qed

lemma sweep_fin:
  assumes "isFin rest"
  shows "finStore R h \<Longrightarrow> \<forall>c \<in> set cs. finContact R c \<Longrightarrow> isFin m \<Longrightarrow>
         (\<forall>c \<in> set (fst (sweep rest cs h m)). finContact R c) \<and>
         finStore R (fst (snd (sweep rest cs h m))) \<and> isFin (snd (snd (sweep rest cs h m)))"
proof (induction cs arbitrary: h m)
  case Nil
  then show ?case by simp
next
  case (Cons c cs)
  obtain c' h' l where sc: "solveContact rest c h = (c', h', l)"
    by (cases "solveContact rest c h") auto
  from Cons.prems have "finContact R c" by simp
  from solveContact_fin[OF Cons.prems(1) this assms] have f: "finContact R c'" "finStore R h'" "isFin l"
    by (simp_all add: sc)
  have "isFin (Math_max m (Math_abs l))"
    by (intro isFin_arith f Cons.prems)
  from Cons.IH[OF f(2) _ this] Cons.prems(2) f(1) show ?case
    by (auto simp: sc split: prod.splits)
qed

lemma solve_fin:
  assumes "isFin rest"
  shows "finStore R h \<Longrightarrow> \<forall>c \<in> set cs. finContact R c \<Longrightarrow> \<forall>e \<in> set errs. isFin e \<Longrightarrow>
         (\<forall>c \<in> set (fst (solve rest n cs h errs)). finContact R c) \<and>
         finStore R (fst (snd (solve rest n cs h errs))) \<and>
         (\<forall>e \<in> set (snd (snd (solve rest n cs h errs))). isFin e)"
proof (induction n arbitrary: cs h errs)
  case 0
  then show ?case by simp
next
  case (Suc n)
  obtain cs' h' m where sw: "sweep rest cs h (Fin 0) = (cs', h', m)"
    by (cases "sweep rest cs h (Fin 0)") auto
  from sweep_fin[OF assms Suc.prems(1,2), of "Fin 0"] have f: "\<forall>c \<in> set cs'. finContact R c"
    "finStore R h'" "isFin m"
    by (simp_all add: sw)
  from Suc.prems(3) f(3) have "\<forall>e \<in> set (errs @ [m]). isFin e"
    by simp
  from Suc.IH[OF f(2) f(1) this] show ?case
    by (simp add: sw)
qed

lemma warmStartPhase_fin:
  assumes "finStore R h" and "\<forall>c \<in> set cs. finContact R c"
  shows "finStore R (warmStartPhase w cs h)"
proof -
  have "finStore R (fold warmStart cs h)"
    using assms
  proof (induction cs arbitrary: h)
    case Nil
    then show ?case by simp
  next
    case (Cons c cs)
    then have "finV (vScale (normal c) (impulseAcc c))"
      by (simp add: finContact_def finV_ops)
    from applyImpulse_finStore[OF this Cons.prems(1)] Cons.IH Cons.prems(2) show ?case
      by (simp add: warmStart_def)
  qed
  with assms(1) show ?thesis
    by (simp add: warmStartPhase_def)
qed

subsection \<open>A tick of a finite world\<close>

lemma afterGravity_wellFormed:
  assumes "isFin (gravity p)" and "wellFormed (objs H) rest r"
  shows "wellFormed (afterGravity H s p) rest r"
proof -
  have "finBody (afterGravity H s p r)"
    unfolding afterGravity_def
    using assms
    by (intro fold_preserves[where P = "\<lambda>h. finBody (h r)"] applyGravity_fin)
       (simp_all add: wellFormed_def)
  moreover have u: "untouched (objs H r) (afterGravity H s p r)"
    by (rule afterGravity_untouched)
  moreover from u have "wallContacts (afterGravity H s p) rest r = wallContacts (objs H) rest r"
    by (intro wallContacts_cong) (simp_all add: untouched_def sameShape_def)
  ultimately show ?thesis
    using assms(2) by (simp add: wellFormed_def untouched_def sameShape_def)
qed

lemma detected_fin:
  assumes "finiteWorld H s p" and "c \<in> set (detected H s p)"
  shows "finContact (set (arrays H (bodies s))) c \<and> massOK c"
proof -
  let ?bs = "arrays H (bodies s)" and ?h = "afterGravity H s p"
  have w: "wellFormed ?h (restitution p) r" if "r \<in> set ?bs" for r
    using assms(1) that by (intro afterGravity_wellFormed) (simp_all add: finiteWorld_def)
  then have st: "finStore (set ?bs) ?h"
    by (simp add: finStore_def wellFormed_def)
  have pr: "\<forall>e \<in> set (contacts s). isFin (impulseAcc e)"
    using assms(1) by (simp add: finiteWorld_def)
  from assms(2) consider r where "r \<in> set ?bs" "c \<in> set (wallContacts ?h (restitution p) r)"
    | "c \<in> set (pairLoop ?h (contacts s) (warmStarting p) ?bs)"
    by (auto simp: detected_def detect_def)
  then show ?thesis
  proof cases
    case 1
    from w[OF 1(1)] have "finBody (?h r)" "isFin (invMass (?h r))" "Fin 0 \<le> invMass (?h r)"
      "invMass (?h r) = Fin 0 \<longrightarrow> wallContacts ?h (restitution p) r = []"
      by (simp_all add: wellFormed_def finBody_def)
    with 1 show ?thesis
      by (blast intro: wallContacts_fin wallContacts_mass)
  next
    case 2
    have "\<forall>r \<in> set ?bs. isFin (invMass (?h r)) \<and> Fin 0 \<le> invMass (?h r) \<and>
        (invMass (?h r) = Fin 0 \<longrightarrow> isStatic (?h r))"
      using w by (simp add: wellFormed_def finBody_def)
    from pairLoop_mass[OF this 2] pairLoop_fin[OF _ st pr 2] show ?thesis
      by simp
  qed
qed

lemma massOK_erase: "massOK (eraseImpulse c) = massOK c"
  by (simp add: massOK_def eraseImpulse_def)

lemma finite_solved:
  assumes "finiteWorld H s p"
  shows "(\<forall>c \<in> set (fst (solved H s p)). finContact (set (arrays H (bodies s))) c) \<and>
         finStore (set (arrays H (bodies s))) (fst (snd (solved H s p))) \<and>
         (\<forall>e \<in> set (snd (snd (solved H s p))). isFin e)"
proof -
  let ?R = "set (arrays H (bodies s))"
  have c: "\<forall>c \<in> set (detected H s p). finContact ?R c"
    using detected_fin[OF assms] by blast
  have "finStore ?R (afterGravity H s p)"
    using assms afterGravity_wellFormed[of p H "restitution p" _ s]
    by (simp add: finStore_def finiteWorld_def wellFormed_def)
  then have "finStore ?R (warmStarted H s p)"
    unfolding warmStarted_def using c by (rule warmStartPhase_fin)
  moreover have "isFin (restitution p)"
    using assms by (simp add: finiteWorld_def)
  ultimately show ?thesis
    unfolding solved_def using c by (intro solve_fin) simp_all
qed

text \<open>After a tick of a finite world the bodies of the array, the contacts and the solver
  errors are finite, and every effective mass is positive.\<close>

lemma finite_stepPhysics:
  assumes "finiteWorld H s p"
  shows "finStore (set (arrays H (bodies s))) (objs (fst (stepPhysics H s p))) \<and>
         (\<forall>c \<in> set (contacts (snd (stepPhysics H s p))).
            finContact (set (arrays H (bodies s))) c \<and> massOK c) \<and>
         (\<forall>e \<in> set (solverErrors (snd (stepPhysics H s p))). isFin e)"
proof -
  let ?R = "set (arrays H (bodies s))"
  note f = finite_solved[OF assms]
  have "finBody (fold integrateBody (arrays H (bodies s)) (fst (snd (solved H s p))) r)"
    if "r \<in> ?R" for r
  proof (rule fold_preserves[where P = "\<lambda>h. finBody (h r)"])
    show "finBody (integrateBody b h r)" if "finBody (h r)" for b h
      using that by (auto simp: integrateBody_def integrate_fin)
    show "finBody (fst (snd (solved H s p)) r)"
      using f \<open>r \<in> ?R\<close> by (simp add: finStore_def)
  qed
  then have st: "finStore ?R (objs (fst (stepPhysics H s p)))"
    by (simp add: finStore_def objs_stepPhysics)
  have m: "massOK c" if "c \<in> set (contacts (snd (stepPhysics H s p)))" for c
  proof -
    from that have "eraseImpulse c \<in> set (map eraseImpulse (detected H s p))"
      using stepPhysics_erase[of H s p] by (metis imageI set_map)
    then obtain d where "d \<in> set (detected H s p)" "eraseImpulse c = eraseImpulse d"
      by auto
    with detected_fin[OF assms] show ?thesis
      by (metis massOK_erase)
  qed
  have e: "solverErrors (snd (stepPhysics H s p)) = snd (snd (solved H s p))"
    by (simp add: stepPhysics_def split: prod.splits)
  from st m f show ?thesis
    by (simp add: contacts_stepPhysics e)
qed

text \<open>In a finite world a tick leaves the velocity of a static body as it was.\<close>

lemma static_velocity_kept:
  assumes "finiteWorld H s p" and "r \<in> set (arrays H (bodies s))"
    and "isStatic (objs H r)" and "invMass (objs H r) = Fin 0"
  shows "vel (objs (fst (stepPhysics H s p)) r) = vel (objs H r)"
proof -
  let ?v = "vel (objs (fst (stepPhysics H s p)) r)"
  from staticFrame_stepPhysics[OF assms(3), of s p] assms(4) have "keptOrNaN (vel (objs H r)) ?v"
    by (simp add: staticFrame_def)
  moreover from finite_stepPhysics[OF assms(1)] assms(2) have "isFin (x ?v)" "isFin (y ?v)"
    by (simp_all add: finStore_def finBody_def finV_def)
  ultimately have "x ?v = x (vel (objs H r))" "y ?v = y (vel (objs H r))"
    by (auto simp: keptOrNaN_def)
  then show ?thesis
    by simp
qed

subsection \<open>Accumulated impulses are never negative\<close>

lemma Math_max_zero: "\<not> Math_max (Fin 0) z < Fin 0"
  by (cases z) (auto simp: Math_max_def)

lemma sweep_nonneg: "c' \<in> set (fst (sweep rest cs h m)) \<Longrightarrow> \<not> impulseAcc c' < Fin 0"
proof (induction cs arbitrary: h m)
  case Nil
  then show ?case by simp
next
  case (Cons c cs)
  obtain d h' l where sc: "solveContact rest c h = (d, h', l)"
    by (cases "solveContact rest c h") auto
  then have d: "\<not> impulseAcc d < Fin 0"
    by (auto simp: solveContact_def Let_def Math_max_zero)
  from Cons.prems have "c' = d \<or> c' \<in> set (fst (sweep rest cs h' (Math_max m (Math_abs l))))"
    by (auto simp: sc split: prod.splits)
  with d Cons.IH show ?case
    by blast
qed

lemma solve_nonneg:
  "\<forall>c \<in> set cs. \<not> impulseAcc c < Fin 0 \<Longrightarrow> c' \<in> set (fst (solve rest n cs h errs)) \<Longrightarrow>
   \<not> impulseAcc c' < Fin 0"
proof (induction n arbitrary: cs h errs)
  case 0
  then show ?case by simp
next
  case (Suc n)
  obtain cs' h' m where sw: "sweep rest cs h (Fin 0) = (cs', h', m)"
    by (cases "sweep rest cs h (Fin 0)") auto
  have "\<forall>c \<in> set cs'. \<not> impulseAcc c < Fin 0"
    using sweep_nonneg[of _ rest cs h "Fin 0"] by (simp add: sw)
  from Suc.IH[OF this] Suc.prems(2) show ?case
    by (simp add: sw)
qed

lemma detected_nonneg:
  assumes "\<forall>e \<in> set (contacts s). \<not> impulseAcc e < Fin 0" and "c \<in> set (detected H s p)"
  shows "\<not> impulseAcc c < Fin 0"
proof (cases "bodyB c")
  case None
  with seeded_detected[OF assms(2)] show ?thesis
    by (simp add: seeded_def)
next
  case (Some b)
  show ?thesis
  proof (cases "find (sameUnorderedPair (objs H) (bodyA c) b) (contacts s)")
    case None
    with Some seeded_detected[OF assms(2)] show ?thesis
      by (simp add: seeded_def)
  next
    case (Some e)
    then have "e \<in> set (contacts s)"
      by (auto simp: find_Some_iff)
    with assms(1) Some \<open>bodyB c = Some b\<close> seeded_detected[OF assms(2)] show ?thesis
      by (auto simp: seeded_def)
  qed
qed

text \<open>No accumulated impulse is negative after a tick, in any world: it is at least \<open>0\<close>, or
  NaN.\<close>

lemma impulse_never_negative:
  assumes "\<forall>e \<in> set (contacts s). \<not> impulseAcc e < Fin 0"
    and "c \<in> set (contacts (snd (stepPhysics H s p)))"
  shows "\<not> impulseAcc c < Fin 0"
  using assms(2) detected_nonneg[OF assms(1)]
  unfolding contacts_stepPhysics solved_def by (intro solve_nonneg) auto

text \<open>In a finite world every accumulated impulse is at least \<open>0\<close> after a tick.\<close>

lemma impulse_nonneg_finite:
  assumes "finiteWorld H s p" and "\<forall>e \<in> set (contacts s). Fin 0 \<le> impulseAcc e"
    and "c \<in> set (contacts (snd (stepPhysics H s p)))"
  shows "Fin 0 \<le> impulseAcc c"
proof -
  have "\<not> impulseAcc e < Fin 0" if "Fin 0 \<le> impulseAcc e" for e
    using that by (cases "impulseAcc e") auto
  with assms(2) have "\<forall>e \<in> set (contacts s). \<not> impulseAcc e < Fin 0"
    by blast
  from impulse_never_negative[OF this assms(3)] have "\<not> impulseAcc c < Fin 0" .
  moreover from finite_stepPhysics[OF assms(1)] assms(3) have "isFin (impulseAcc c)"
    by (simp add: finContact_def)
  ultimately show ?thesis
    by (cases "impulseAcc c") auto
qed

subsection \<open>The clamp\<close>

lemma integrate_movable: "movable rad b \<Longrightarrow> movable rad (integrate b)"
  using integrate_fin[of b]
  by (auto simp: movable_def integrate_def clampLeft_def clampRight_def clampTop_def clampBottom_def)

lemma integrate_inArena:
  assumes "movable rad b" and "rad + rad \<le> widthM" and "rad + rad \<le> heightM"
  shows "inArena (integrate b)"
proof -
  from assms(1) obtain px py vx vy r where
    b: "x (pos b) = Fin px" "y (pos b) = Fin py" "x (vel b) = Fin vx" "y (vel b) = Fin vy"
      "radius b = Fin r" "rad = Fin r"
    by (auto simp: movable_def finBody_def finV_def isFin_iff)
  from assms(2,3) have r: "r + r \<le> 16" "r + r \<le> 12"
    by (simp_all add: b widthM_def heightM_def CANVAS_WIDTH_def CANVAS_HEIGHT_def PIXELS_PER_METER_def)
  have i: "integrate b = clampBottom (clampTop (clampRight (clampLeft
      (b\<lparr>trail := recordTrail b, pos := vAdd (pos b) (vScale (vel b) TIMESTEP)\<rparr>))))"
    using assms(1) by (simp add: integrate_def movable_def strictEq_def)
  show ?thesis
    unfolding i inArena_def
    using r
    by (simp add: clampLeft_def clampRight_def clampTop_def clampBottom_def vAdd_def vScale_def b
        TIMESTEP_def widthM_def heightM_def CANVAS_WIDTH_def CANVAS_HEIGHT_def PIXELS_PER_METER_def
        minus_jsnum_def)
qed

lemma fold_integrateBody_post:
  assumes "\<And>b. P b \<Longrightarrow> P (integrate b) \<and> Q (integrate b)"
  shows "P (h r) \<Longrightarrow> r \<in> set bs \<or> Q (h r) \<Longrightarrow>
         P (fold integrateBody bs h r) \<and> Q (fold integrateBody bs h r)"
proof (induction bs arbitrary: h)
  case Nil
  then show ?case by simp
next
  case (Cons b bs)
  let ?h = "integrateBody b h"
  have "P (?h r)"
    using Cons.prems(1) assms by (auto simp: integrateBody_def)
  moreover have "r \<in> set bs \<or> Q (?h r)"
    using Cons.prems assms by (auto simp: integrateBody_def)
  ultimately show ?case
    using Cons.IH[of ?h] by simp
qed

text \<open>In a finite world every body that is not static and whose radius is at most half the
  width and half the height of the arena lies inside the arena after a tick.\<close>

lemma body_in_arena:
  assumes "finiteWorld H s p" and "r \<in> set (arrays H (bodies s))" and "\<not> isStatic (objs H r)"
    and "radius (objs H r) + radius (objs H r) \<le> widthM"
    and "radius (objs H r) + radius (objs H r) \<le> heightM"
  shows "inArena (objs (fst (stepPhysics H s p)) r)"
proof -
  let ?rad = "radius (objs H r)" and ?h = "fst (snd (solved H s p))"
  have u: "untouched (objs H r) (?h r)"
    by (rule solved_untouched)
  have "invMass (objs H r) \<noteq> Fin 0"
    using assms(1-3) by (auto simp: finiteWorld_def wellFormed_def)
  moreover have "finBody (?h r)"
    using finite_solved[OF assms(1)] assms(2) by (simp add: finStore_def)
  ultimately have m: "movable ?rad (?h r)"
    using u assms(3) by (simp add: movable_def untouched_def sameShape_def)
  have "movable ?rad (fold integrateBody (arrays H (bodies s)) ?h r) \<and>
        inArena (fold integrateBody (arrays H (bodies s)) ?h r)"
  proof (rule fold_integrateBody_post[where P = "movable ?rad" and Q = inArena])
    show "movable ?rad (integrate b) \<and> inArena (integrate b)" if "movable ?rad b" for b
      using that assms(4,5) by (simp add: integrate_movable integrate_inArena)
    show "movable ?rad (?h r)" by (rule m)
    show "r \<in> set (arrays H (bodies s)) \<or> inArena (?h r)" using assms(2) by simp
  qed
  then show ?thesis
    by (simp add: objs_stepPhysics)
qed

text \<open>The two balls form a finite world: its hypotheses can be met.\<close>

lemma finiteWorld_twoBalls:
  "finiteWorld (world [leftBall, rightBall]) freshState (tick (Fin 0) 1 (Fin 0) False)"
  by (simp add: finiteWorld_def wellFormed_def finBody_def finV_def world_defs leftBall_def
      rightBall_def less_Suc_eq)

text \<open>In a finite world the velocity stays finite through the solver, so the bounce of a
  body that no other body pushes needs no condition on it.\<close>

lemma unpushed_left_bounce_finite:
  assumes "finiteWorld H s p" and "count_list (arrays H (bodies s)) r = 1"
    and "\<not> isStatic (objs H r)"
    and "radius (objs H r) + radius (objs H r) \<le> widthM"
    and "x (pos (objs H r)) - radius (objs H r) < Fin 0"
    and "x (vel (objs H r)) < Fin 0"
    and "\<forall>c \<in> set (detected H s p). bodyB c = None \<or> (bodyA c \<noteq> r \<and> bodyB c \<noteq> Some r)"
  shows "x (pos (objs (fst (stepPhysics H s p)) r)) = radius (objs H r) \<and>
         x (vel (objs (fst (stepPhysics H s p)) r)) = x (vel (objs H r)) * Fin (- (1 / 2))"
proof -
  have r: "r \<in> set (arrays H (bodies s))"
    using assms(2) count_list_0_iff[of "arrays H (bodies s)" r] by auto
  with assms(1) have w: "wellFormed (objs H) (restitution p) r"
    by (simp add: finiteWorld_def)
  then have m: "isFin (invMass (objs H r))" "Fin 0 < invMass (objs H r)"
    using assms(3) by (cases "invMass (objs H r)"; auto simp: wellFormed_def finBody_def)+
  have "finBody (fst (snd (solved H s p)) r)"
    using finite_solved[OF assms(1)] r by (simp add: finStore_def)
  then have "isFin (y (vel (fst (snd (solved H s p)) r)))"
    by (simp add: finBody_def finV_def)
  with assms(2,3) m assms(4-7) show ?thesis
    by (rule left_bounce_of_unpushed)
qed

end
